theory Spec2Isabelle
  imports Main
begin

section \<open>JavaScript values, objects and errors\<close>

text \<open>
  The front-end is JavaScript. A value is one of the primitives the actions handle, or an
  object, kept as the list of its own properties in insertion order. \<open>NOVALUE\<close> is the
  sentinel imported from \<^verbatim>\<open>shared/constants\<close>: a distinguished value that is equal
  only to itself. Numbers are integers here (no NaN, no fractions).
\<close>

datatype jsval =
    JUndefined
  | JNull
  | NOVALUE
  | JBool bool
  | JNum int
  | JStr string
  | JObj "(string \<times> jsval) list"

type_synonym jsobject = "(string \<times> jsval) list"

datatype error =
    TypeError string
  | ReferenceError string
  | Error string

text \<open>Reading a property of an object: \<open>undefined\<close> when the object has no such property.\<close>

definition get_prop :: "jsobject \<Rightarrow> string \<Rightarrow> jsval" where
  "get_prop obj k = (case map_of obj k of None \<Rightarrow> JUndefined | Some v \<Rightarrow> v)"

text \<open>Assignment \<^verbatim>\<open>obj[k] = v\<close>: replaces the property in place, or adds it last.\<close>

fun set_prop :: "jsobject \<Rightarrow> string \<Rightarrow> jsval \<Rightarrow> jsobject" where
  "set_prop [] k v = [(k, v)]"
| "set_prop ((k', v') # ps) k v =
     (if k' = k then (k, v) # ps else (k', v') # set_prop ps k v)"

text \<open>
  The keys of an object. The code below reads only how many there are, and the statements
  about it only which keys there are; their order plays no part.
\<close>

definition Object_keys :: "jsobject \<Rightarrow> string list" where
  "Object_keys obj = map fst obj"

text \<open>Truthiness, as \<^verbatim>\<open>if (x)\<close> and \<^verbatim>\<open>!x\<close> test it.\<close>

fun truthy :: "jsval \<Rightarrow> bool" where
  "truthy JUndefined = False"
| "truthy JNull = False"
| "truthy NOVALUE = True"
| "truthy (JBool b) = b"
| "truthy (JNum n) = (n \<noteq> 0)"
| "truthy (JStr s) = (s \<noteq> [])"
| "truthy (JObj ps) = True"

text \<open>
  Member access \<^verbatim>\<open>v.k\<close> on any value: it throws on \<open>null\<close> and \<open>undefined\<close>, reads the
  property of an object, and is \<open>undefined\<close> on the other primitives (for the four names
  read below, which no prototype defines).
\<close>

fun get_member :: "jsval \<Rightarrow> string \<Rightarrow> error + jsval" where
  "get_member JUndefined k = Inl (TypeError ''Cannot read property of undefined'')"
| "get_member JNull k = Inl (TypeError ''Cannot read property of null'')"
| "get_member (JObj ps) k = Inr (get_prop ps k)"
| "get_member v k = Inr JUndefined"

text \<open>Sequencing of computations that may throw.\<close>

definition bindE :: "error + 'a \<Rightarrow> ('a \<Rightarrow> error + 'b) \<Rightarrow> error + 'b" where
  "bindE m f = (case m of Inl e \<Rightarrow> Inl e | Inr a \<Rightarrow> f a)"

text \<open>
  An action runs against the world \<open>'w\<close> (the Vuex store, IndexedDB, the network) and
  returns the settled value of its promise: \<open>Inl\<close> a rejection or a throw, \<open>Inr\<close> the
  value it resolves to.
\<close>

type_synonym ('w, 'a) action = "'w \<Rightarrow> (error + 'a) \<times> 'w"

section \<open>\<^verbatim>\<open>channelEdit/vuex/contentNode/actions.js\<close>: updating a content node\<close>

text \<open>
  A destructured parameter with a default, \<^verbatim>\<open>{ title = NOVALUE, ... }\<close>: the default is
  taken when the property is missing or \<open>undefined\<close>.
\<close>

definition param :: "jsobject \<Rightarrow> string \<Rightarrow> jsval" where
  "param payload k = (case get_prop payload k of JUndefined \<Rightarrow> NOVALUE | v \<Rightarrow> v)"

text \<open>\<^verbatim>\<open>if (x !== NOVALUE) { contentNodeData.x = x; }\<close>\<close>

definition assign_given :: "string \<Rightarrow> jsval \<Rightarrow> jsobject \<Rightarrow> jsobject" where
  "assign_given k v contentNodeData =
     (if v \<noteq> NOVALUE then set_prop contentNodeData k v else contentNodeData)"

text \<open>\<^verbatim>\<open>if (x !== NOVALUE) { contentNodeData.x = JSON.stringify(x); }\<close>\<close>

definition assign_stringified ::
  "(jsval \<Rightarrow> jsval) \<Rightarrow> string \<Rightarrow> jsval \<Rightarrow> jsobject \<Rightarrow> jsobject" where
  "assign_stringified JSON_stringify k v contentNodeData =
     (if v \<noteq> NOVALUE then set_prop contentNodeData k (JSON_stringify v) else contentNodeData)"

text \<open>
  \<^verbatim>\<open>if (Object.keys(contentNodeData).length) { contentNodeData.changed = true; }\<close>
\<close>

definition mark_changed :: "jsobject \<Rightarrow> jsobject" where
  "mark_changed contentNodeData =
     (if length (Object_keys contentNodeData) \<noteq> 0
      then set_prop contentNodeData ''changed'' (JBool True) else contentNodeData)"

text \<open>
  \<^verbatim>\<open>if (extra_fields.k) { contentNodeData.extra_fields.k = extra_fields.k; }\<close>, on the
  object held in \<^verbatim>\<open>contentNodeData.extra_fields\<close>.
\<close>

definition assign_truthy_member :: "jsval \<Rightarrow> string \<Rightarrow> jsobject \<Rightarrow> error + jsobject" where
  "assign_truthy_member extra_fields k ef =
     bindE (get_member extra_fields k)
       (\<lambda>v. Inr (if truthy v then set_prop ef k v else ef))"

text \<open>
  The block guarded by \<^verbatim>\<open>extra_fields !== NOVALUE\<close>. The object under
  \<^verbatim>\<open>contentNodeData.extra_fields\<close> is the one already there when there is one, a fresh
  \<^verbatim>\<open>{}\<close> otherwise.
\<close>

definition assign_extra_fields :: "jsval \<Rightarrow> jsobject \<Rightarrow> error + jsobject" where
  "assign_extra_fields extra_fields contentNodeData =
     (if extra_fields \<noteq> NOVALUE then
        (let ef0 = (case get_prop contentNodeData ''extra_fields'' of
                      JObj ps \<Rightarrow> ps | _ \<Rightarrow> [])
         in bindE (assign_truthy_member extra_fields ''type'' ef0) (\<lambda>ef1.
            bindE (assign_truthy_member extra_fields ''m'' ef1) (\<lambda>ef2.
            bindE (assign_truthy_member extra_fields ''n'' ef2) (\<lambda>ef3.
            bindE (assign_truthy_member extra_fields ''randomize'' ef3) (\<lambda>ef4.
            Inr (set_prop contentNodeData ''extra_fields'' (JObj ef4)))))))
      else Inr contentNodeData)"

text \<open>
  \<^verbatim>\<open>generateContentNodeData\<close>. \<open>JSON_stringify\<close> is the built-in, taken as a parameter.
  The statements run in the source's order; only the member reads on \<open>extra_fields\<close> can
  throw.
\<close>

definition generateContentNodeData :: "(jsval \<Rightarrow> jsval) \<Rightarrow> jsobject \<Rightarrow> error + jsobject" where
  "generateContentNodeData JSON_stringify payload =
    (let title = param payload ''title'';
         description = param payload ''description'';
         thumbnail_encoding = param payload ''thumbnail_encoding'';
         language = param payload ''language'';
         license = param payload ''license'';
         license_description = param payload ''license_description'';
         copyright_holder = param payload ''copyright_holder'';
         author = param payload ''author'';
         role_visibility = param payload ''role_visibility'';
         aggregator = param payload ''aggregator'';
         provider = param payload ''provider'';
         extra_fields = param payload ''extra_fields'';
         prerequisite = param payload ''prerequisite'';
         complete = param payload ''complete'';
         d = [];
         d = assign_given ''title'' title d;
         d = assign_given ''description'' description d;
         d = assign_stringified JSON_stringify ''thumbnail_encoding'' thumbnail_encoding d;
         d = assign_given ''language'' language d;
         d = assign_given ''license'' license d;
         d = assign_given ''license_description'' license_description d;
         d = assign_given ''copyright_holder'' copyright_holder d;
         d = assign_given ''author'' author d;
         d = assign_given ''role_visibility'' role_visibility d;
         d = assign_given ''aggregator'' aggregator d;
         d = assign_given ''provider'' provider d
     in bindE (assign_extra_fields extra_fields d) (\<lambda>d.
          (let d = assign_given ''prerequisite'' prerequisite d;
               d = assign_given ''complete'' complete d;
               d = mark_changed d
           in Inr d)))"

text \<open>
  The collaborators of the actions: Vuex mutations (\<^verbatim>\<open>context.commit\<close>), actions of other
  modules (\<^verbatim>\<open>context.dispatch\<close>) and the \<^verbatim>\<open>ContentNode\<close> resource. Their code is outside
  these files, so each is a parameter. A commit is synchronous; the others return promises.
\<close>

datatype position = FIRST_CHILD | LAST_CHILD | LEFT | RIGHT

record node =
  id' :: string
  source_id :: string

record 'w action_context =
  commit_UPDATE_CONTENTNODE :: "jsobject \<Rightarrow> 'w \<Rightarrow> 'w"
  ContentNode_update :: "jsval \<Rightarrow> jsobject \<Rightarrow> ('w, jsval) action"
  ContentNode_copy :: "string \<Rightarrow> string \<Rightarrow> position \<Rightarrow> bool \<Rightarrow> ('w, node list) action"
  commit_ADD_CONTENTNODES :: "node list \<Rightarrow> 'w \<Rightarrow> 'w"
  dispatch_copyAssessmentItems :: "string list \<Rightarrow> (string \<times> node) list \<Rightarrow> ('w, unit) action"
  dispatch_copyFiles :: "string list \<Rightarrow> (string \<times> node) list \<Rightarrow> ('w, unit) action"

text \<open>
  \<^verbatim>\<open>updateContentNode(context, { id, ...payload } = {})\<close>: the argument object is split
  into \<open>id\<close> and the rest.
\<close>

definition rest_without :: "string \<Rightarrow> jsobject \<Rightarrow> jsobject" where
  "rest_without k obj = filter (\<lambda>p. fst p \<noteq> k) obj"

definition updateContentNode ::
  "(jsval \<Rightarrow> jsval) \<Rightarrow> 'w action_context \<Rightarrow> jsobject \<Rightarrow> ('w, jsval) action" where
  "updateContentNode JSON_stringify ctx arg w =
    (let id = get_prop arg ''id'';
         payload = rest_without ''id'' arg
     in if \<not> truthy id
        then (Inl (ReferenceError ''id must be defined to update a contentNode''), w)
        else (case generateContentNodeData JSON_stringify payload of
                Inl e \<Rightarrow> (Inl e, w)
              | Inr contentNodeData \<Rightarrow>
                  ContentNode_update ctx id contentNodeData
                    (commit_UPDATE_CONTENTNODE ctx ((''id'', id) # contentNodeData) w)))"

text \<open>
  The fields \<^verbatim>\<open>generateContentNodeData\<close> destructures, and what it means for a call to
  provide one: the payload holds it with a value other than \<open>undefined\<close> and the sentinel.
\<close>

definition content_fields :: "string list" where
  "content_fields =
    [''title'', ''description'', ''thumbnail_encoding'', ''language'', ''license'',
     ''license_description'', ''copyright_holder'', ''author'', ''role_visibility'',
     ''aggregator'', ''provider'', ''extra_fields'', ''prerequisite'', ''complete'']"

definition provided :: "jsobject \<Rightarrow> string \<Rightarrow> bool" where
  "provided payload k = (k \<in> set content_fields \<and> param payload k \<noteq> NOVALUE)"

text \<open>
  Modelled from the spec: the partial update of an entity (\<open>update(partial)\<close> of the Remote
  API Client, last-write-wins on the materialized row), which the mutation
  \<^verbatim>\<open>UPDATE_CONTENTNODE\<close> and \<^verbatim>\<open>ContentNode.update\<close> apply outside these files: every
  property of the update is written onto the entity, the others stay.
\<close>

definition partial_update :: "jsobject \<Rightarrow> jsobject \<Rightarrow> jsobject" where
  "partial_update entity upd = fold (\<lambda>p e. set_prop e (fst p) (snd p)) upd entity"

text \<open>
  For the proofs: a conditional assignment, and the assignments
  \<^verbatim>\<open>generateContentNodeData\<close> makes as a list of (condition, key, value), in its order.
\<close>

definition assign_if :: "bool \<Rightarrow> string \<Rightarrow> jsval \<Rightarrow> jsobject \<Rightarrow> jsobject" where
  "assign_if c k v d = (if c then set_prop d k v else d)"

definition assignments ::
  "(jsval \<Rightarrow> jsval) \<Rightarrow> jsobject \<Rightarrow> jsobject \<Rightarrow> (bool \<times> string \<times> jsval) list" where
  "assignments JSON_stringify payload ef =
     map (\<lambda>k. (param payload k \<noteq> NOVALUE, k,
            if k = ''thumbnail_encoding'' then JSON_stringify (param payload k)
            else if k = ''extra_fields''
              then (if param payload k \<noteq> NOVALUE then JObj ef else NOVALUE)
            else param payload k))
       content_fields"

section \<open>\<^verbatim>\<open>channelEdit/vuex/contentNode/actions.js\<close>: copying content nodes\<close>

text \<open>
  \<^verbatim>\<open>chunk\<close> of lodash, which \<^verbatim>\<open>promiseChunk\<close> uses: consecutive groups of \<open>n\<close>
  elements, the last one shorter; no group for a size below one.
\<close>

function chunk :: "'a list \<Rightarrow> nat \<Rightarrow> 'a list list" where
  "chunk xs n = (if n = 0 \<or> xs = [] then [] else take n xs # chunk (drop n xs) n)"
  by pat_completeness auto
termination
  by (relation "measure (\<lambda>(xs, n). length xs)") auto

declare chunk.simps [simp del]

text \<open>
  \<^verbatim>\<open>Promise.all\<close> over promises that are started in array order. Every member runs, also
  after one has failed; the result is the first rejection in array order, or all the
  values. In the code every member is started (it runs up to its first pending promise)
  before any of them goes on, and their later steps interleave as their promises settle.
  This model runs one member to its end before it starts the next, so where several copies
  run under one \<^verbatim>\<open>Promise.all\<close> the order of the recorded calls of different members is
  the model's own. What is stated below about the recorded calls of such runs does not
  depend on that order: the calls of one kind in the order they are started, and bounds
  that hold for each call.
\<close>

fun run_all :: "('w, 'a) action list \<Rightarrow> 'w \<Rightarrow> (error + 'a) list \<times> 'w" where
  "run_all [] w = ([], w)"
| "run_all (p # ps) w =
     (case p w of (r, w') \<Rightarrow> (case run_all ps w' of (rs, w'') \<Rightarrow> (r # rs, w'')))"

fun all_or_first_rejection :: "(error + 'a) list \<Rightarrow> error + 'a list" where
  "all_or_first_rejection [] = Inr []"
| "all_or_first_rejection (Inl e # rs) = Inl e"
| "all_or_first_rejection (Inr a # rs) = bindE (all_or_first_rejection rs) (\<lambda>as. Inr (a # as))"

definition Promise_all :: "('w, 'a) action list \<Rightarrow> ('w, 'a list) action" where
  "Promise_all ps w = (case run_all ps w of (rs, w') \<Rightarrow> (all_or_first_rejection rs, w'))"

text \<open>
  Modelled from the spec: \<^verbatim>\<open>promiseChunk\<close> of \<^verbatim>\<open>shared/utils/helpers\<close>, which is not
  among these files. The spec's chunked orchestration "processes large copy sets in
  bounded-size groups" and "preserves per-chunk order": the groups of \<^verbatim>\<open>chunk\<close> are
  handed to the callback one after the other, each awaited before the next starts, the
  results concatenated; a rejection stops the chain.
\<close>

fun promiseChunk_reduce ::
  "('a list \<Rightarrow> ('w, 'r list) action) \<Rightarrow> 'a list list \<Rightarrow> 'r list \<Rightarrow> ('w, 'r list) action" where
  "promiseChunk_reduce callback [] results w = (Inr results, w)"
| "promiseChunk_reduce callback (thingChunk # chunks) results w =
     (case callback thingChunk w of
        (Inl e, w') \<Rightarrow> (Inl e, w')
      | (Inr chunkResults, w') \<Rightarrow>
          promiseChunk_reduce callback chunks (results @ chunkResults) w')"

definition promiseChunk ::
  "'a list \<Rightarrow> nat \<Rightarrow> ('a list \<Rightarrow> ('w, 'r list) action) \<Rightarrow> ('w, 'r list) action" where
  "promiseChunk things chunkSize callback w =
     (if things = [] then (Inr [], w)
      else promiseChunk_reduce callback (chunk things chunkSize) [] w)"

text \<open>
  The members every object literal inherits from \<^verbatim>\<open>Object.prototype\<close>; the operator
  \<^verbatim>\<open>in\<close> sees them next to the object's own properties.
\<close>

definition Object_prototype_members :: "string list" where
  "Object_prototype_members =
    [''constructor'', ''__defineGetter__'', ''__defineSetter__'', ''hasOwnProperty'',
     ''__lookupGetter__'', ''__lookupSetter__'', ''isPrototypeOf'', ''propertyIsEnumerable'',
     ''toString'', ''valueOf'', ''__proto__'', ''toLocaleString'']"

definition has_property :: "(string \<times> 'a) list \<Rightarrow> string \<Rightarrow> bool" where
  "has_property obj k = (map_of obj k \<noteq> None \<or> k \<in> set Object_prototype_members)"

text \<open>
  The order in which \<^verbatim>\<open>Object.keys\<close> lists own string keys: the array indices first
  (the canonical decimal numerals of the integers from 0 to 4294967294), in ascending
  numeric order, then the other keys in the order they were added.
\<close>

definition decimal :: "string \<Rightarrow> int" where
  "decimal s = fold (\<lambda>c n. 10 * n + (of_char c - 48)) s 0"

definition array_index :: "string \<Rightarrow> bool" where
  "array_index s =
     (s \<noteq> [] \<and> list_all (\<lambda>c. c \<in> set ''0123456789'') s \<and>
      \<not> (1 < length s \<and> hd s = CHR ''0'') \<and> decimal s < 4294967295)"

definition own_keys_order :: "string list \<Rightarrow> string list" where
  "own_keys_order ks =
     sort_key decimal (filter array_index ks) @ filter (\<lambda>k. \<not> array_index k) ks"

text \<open>
  The \<^verbatim>\<open>reduce\<close> that maps each source id to its copy, starting from \<^verbatim>\<open>{}\<close>; a source id
  that is already \<^verbatim>\<open>in\<close> the map throws. The map is kept as the list of its own
  properties in the order they were added.
\<close>

fun nodeMap_reduce :: "(string \<times> node) list \<Rightarrow> node list \<Rightarrow> error + (string \<times> node) list" where
  "nodeMap_reduce nodeMap [] = Inr nodeMap"
| "nodeMap_reduce nodeMap (n # ns) =
     (if has_property nodeMap (source_id n) then Inl (Error ''Not implemented'')
      else nodeMap_reduce (nodeMap @ [(source_id n, n)]) ns)"

text \<open>
  The callback \<^verbatim>\<open>copyContentNode\<close> gives to \<^verbatim>\<open>promiseChunk\<close>. The \<^verbatim>\<open>updater\<close> closure is
  determined by \<open>nodeMap\<close>, which stands for it in the two dispatches.
\<close>

definition copy_chunk :: "'w action_context \<Rightarrow> node list \<Rightarrow> ('w, unit list) action" where
  "copy_chunk ctx nodeChunk w =
     (case nodeMap_reduce [] nodeChunk of
        Inl e \<Rightarrow> (Inl e, w)
      | Inr nodeMap \<Rightarrow>
          (let contentnode__in = own_keys_order (map fst nodeMap)
           in Promise_all
                [dispatch_copyAssessmentItems ctx contentnode__in nodeMap,
                 dispatch_copyFiles ctx contentnode__in nodeMap] w))"

text \<open>The \<^verbatim>\<open>children\<close> argument: a list of trees \<^verbatim>\<open>{ id, children }\<close>.\<close>

datatype child = Child string "child list"

text \<open>
  \<^verbatim>\<open>copyContentNode\<close>. The throw on \<^verbatim>\<open>deep\<close> with children comes before any call. The
  children are copied by the function itself, with the default position and
  \<^verbatim>\<open>deep = false\<close>, under the first copied node; \<^verbatim>\<open>nodes[0].id\<close> throws when no node came
  back. The final \<^verbatim>\<open>then(([childNodes]) => ...)\<close> keeps the first child's nodes only.
\<close>

function copyContentNode ::
    "'w action_context \<Rightarrow> string \<Rightarrow> string \<Rightarrow> position \<Rightarrow> bool \<Rightarrow> child list \<Rightarrow> ('w, node list) action"
  and copy_children ::
    "'w action_context \<Rightarrow> node list \<Rightarrow> child list \<Rightarrow> 'w \<Rightarrow> (error + node list) list \<times> 'w"
  where
  "copyContentNode ctx ident target position deep children w =
     (if deep \<and> length children \<noteq> 0
      then (Inl (TypeError ''Cannot use deep and specify children''), w)
      else (case ContentNode_copy ctx ident target position deep w of
              (Inl e, w1) \<Rightarrow> (Inl e, w1)
            | (Inr nodes, w1) \<Rightarrow>
                (case promiseChunk nodes 10 (copy_chunk ctx)
                        (commit_ADD_CONTENTNODES ctx nodes w1) of
                   (Inl e, w2) \<Rightarrow> (Inl e, w2)
                 | (Inr _, w2) \<Rightarrow>
                     (if length children \<noteq> 0
                      then (case copy_children ctx nodes children w2 of
                              (rs, w3) \<Rightarrow>
                                (bindE (all_or_first_rejection rs)
                                   (\<lambda>results. Inr (nodes @ hd results)), w3))
                      else (Inr nodes, w2)))))"
| "copy_children ctx nodes [] w = ([], w)"
| "copy_children ctx nodes (Child child_id child_children # children) w =
     (case (case nodes of
              [] \<Rightarrow> (Inl (TypeError ''Cannot read property id of undefined''), w)
            | n0 # _ \<Rightarrow>
                copyContentNode ctx child_id (id' n0) LAST_CHILD False child_children w) of
        (r, w') \<Rightarrow> (case copy_children ctx nodes children w' of (rs, w'') \<Rightarrow> (r # rs, w'')))"
  by pat_completeness auto
termination
  by (relation "measure (\<lambda>x. case x of
        Inl (ctx, ident, target, position, deep, children, w) \<Rightarrow> 2 * size_list size children + 1
      | Inr (ctx, nodes, children, w) \<Rightarrow> 2 * size_list size children)") auto

declare copyContentNode.simps [simp del]

text \<open>
  \<^verbatim>\<open>copyContentNodes\<close>. \<^verbatim>\<open>context.dispatch('copyContentNode', ...)\<close> runs the action above
  with no children.
\<close>

definition copyContentNodes ::
  "'w action_context \<Rightarrow> string list \<Rightarrow> string \<Rightarrow> bool \<Rightarrow> ('w, node list list) action" where
  "copyContentNodes ctx id__in target deep =
    (let position = LAST_CHILD;
         chunkSize = (if deep then 1 else 10)
     in promiseChunk id__in chunkSize
          (\<lambda>idChunk. Promise_all
             (map (\<lambda>ident. copyContentNode ctx ident target position deep []) idChunk)))"

text \<open>
  A world that only records the calls made to the collaborators, in order, and answers
  each from the record so far.
\<close>

datatype event =
    Commit_UPDATE_CONTENTNODE jsobject
  | Call_update jsval jsobject
  | Call_copy string string position bool
  | Commit_ADD_CONTENTNODES "node list"
  | Dispatch_copyAssessmentItems "string list"
  | Dispatch_copyFiles "string list"

record responses =
  update_response :: "event list \<Rightarrow> error + jsval"
  copy_response :: "event list \<Rightarrow> error + node list"
  items_response :: "event list \<Rightarrow> error + unit"
  files_response :: "event list \<Rightarrow> error + unit"

definition recording :: "responses \<Rightarrow> event list action_context" where
  "recording r =
    \<lparr> commit_UPDATE_CONTENTNODE = (\<lambda>upd t. t @ [Commit_UPDATE_CONTENTNODE upd]),
      ContentNode_update = (\<lambda>i upd t.
        (update_response r (t @ [Call_update i upd]), t @ [Call_update i upd])),
      ContentNode_copy = (\<lambda>i target position deep t.
        (copy_response r (t @ [Call_copy i target position deep]),
         t @ [Call_copy i target position deep])),
      commit_ADD_CONTENTNODES = (\<lambda>nodes t. t @ [Commit_ADD_CONTENTNODES nodes]),
      dispatch_copyAssessmentItems = (\<lambda>contentnode__in nodeMap t.
        (items_response r (t @ [Dispatch_copyAssessmentItems contentnode__in]),
         t @ [Dispatch_copyAssessmentItems contentnode__in])),
      dispatch_copyFiles = (\<lambda>contentnode__in nodeMap t.
        (files_response r (t @ [Dispatch_copyFiles contentnode__in]),
         t @ [Dispatch_copyFiles contentnode__in])) \<rparr>"

text \<open>
  Every dispatch of \<^verbatim>\<open>copyAssessmentItems\<close> and \<^verbatim>\<open>copyFiles\<close> recorded in a trace
  carries at most 10 ids.
\<close>

definition dispatches_bounded :: "event list \<Rightarrow> bool" where
  "dispatches_bounded t = (\<forall>e \<in> set t. case e of
       Dispatch_copyAssessmentItems ids \<Rightarrow> length ids \<le> 10
     | Dispatch_copyFiles ids \<Rightarrow> length ids \<le> 10
     | _ \<Rightarrow> True)"

text \<open>
  The two dispatches the callback makes for one group of nodes: both carry the group's
  source ids, in the order \<^verbatim>\<open>Object.keys\<close> lists them.
\<close>

definition dispatches_of :: "node list \<Rightarrow> event list" where
  "dispatches_of nodeChunk =
     [Dispatch_copyAssessmentItems (own_keys_order (map source_id nodeChunk)),
      Dispatch_copyFiles (own_keys_order (map source_id nodeChunk))]"

text \<open>The calls of \<^verbatim>\<open>ContentNode.copy\<close> recorded in a trace, in order, with their arguments.\<close>

definition copy_calls :: "event list \<Rightarrow> (string \<times> string \<times> position \<times> bool) list" where
  "copy_calls t =
     concat (map (\<lambda>e. case e of
                     Call_copy i target position deep \<Rightarrow> [(i, target, position, deep)]
                   | _ \<Rightarrow> []) t)"

text \<open>Concrete inputs for the examples below.\<close>

definition example_responses :: responses where
  "example_responses =
    \<lparr> update_response = (\<lambda>t. Inr (JNum 1)),
      copy_response = (\<lambda>t. case last t of
          Call_copy i target position deep \<Rightarrow> Inr [\<lparr> id' = ''copy-of-'' @ i, source_id = i \<rparr>]
        | _ \<Rightarrow> Inr []),
      items_response = (\<lambda>t. Inr ()),
      files_response = (\<lambda>t. Inr ()) \<rparr>"

definition tags_update :: jsobject where
  "tags_update = [(''id'', JStr ''n1''), (''tags'', JObj [(''algebra'', JBool True)])]"

definition null_extra_fields_update :: jsobject where
  "null_extra_fields_update = [(''id'', JStr ''n1''), (''extra_fields'', JNull)]"

definition example_update :: jsobject where
  "example_update =
     [(''id'', JStr ''n1''), (''title'', JStr ''Algebra''), (''tags'', JObj []),
      (''description'', JUndefined)]"


definition example_ids :: "string list" where
  "example_ids = [''a'', ''b'', ''c'', ''d'', ''e'', ''f'', ''g'', ''h'', ''i'', ''j'', ''k'', ''l'']"


text \<open>
  A deep copy that returns twelve nodes, and a group whose source ids hold array indices.
\<close>

definition example_nodes :: "node list" where
  "example_nodes = map (\<lambda>i. \<lparr> id' = ''copy-of-'' @ i, source_id = i \<rparr>) example_ids"

definition deep_copy_responses :: responses where
  "deep_copy_responses =
    \<lparr> update_response = (\<lambda>t. Inr (JNum 1)),
      copy_response = (\<lambda>t. Inr example_nodes),
      items_response = (\<lambda>t. Inr ()),
      files_response = (\<lambda>t. Inr ()) \<rparr>"

definition indexed_nodes :: "node list" where
  "indexed_nodes =
     [\<lparr> id' = ''x1'', source_id = ''b'' \<rparr>, \<lparr> id' = ''x2'', source_id = ''10'' \<rparr>,
      \<lparr> id' = ''x3'', source_id = ''9'' \<rparr>, \<lparr> id' = ''x4'', source_id = ''07'' \<rparr>]"

section \<open>\<^verbatim>\<open>channelEdit/components/ContentNodeOptions.vue\<close>: the tracked menu actions\<close>

text \<open>
  \<^verbatim>\<open>removeNode\<close>, \<^verbatim>\<open>copyToClipboard\<close> and \<^verbatim>\<open>duplicateNode\<close> are wrapped with
  \<^verbatim>\<open>withChangeTracker\<close> (of \<^verbatim>\<open>shared/data/changes\<close>, not among these files), which hands
  the body a change tracker. The bodies use the tracker in one way only: the snackbar's
  \<^verbatim>\<open>actionCallback\<close> calls its \<^verbatim>\<open>revert\<close>. A call of a tracker method is recorded with the
  list of arguments it is given; a JavaScript function is a map from the arguments it
  receives to the calls it makes.
\<close>

datatype tracker_call = Revert "jsval list"

record snackbar =
  text' :: string
  actionText :: string
  duration :: jsval
  actionCallback :: "jsval list \<Rightarrow> tracker_call list"

text \<open>The component's own data: its \<^verbatim>\<open>nodeId\<close> prop, the trash id and the node's fields.\<close>

record component =
  nodeId :: string
  trashId :: string
  node_parent :: string
  node_node_id :: string
  node_channel_id :: string

text \<open>
  The mapped Vuex actions and \<^verbatim>\<open>$tr\<close>, as parameters: \<^verbatim>\<open>moveContentNodes\<close>,
  \<^verbatim>\<open>showSnackbar\<close>, the clipboard's \<^verbatim>\<open>copy\<close> and \<^verbatim>\<open>copyContentNode({ id, target, deep })\<close>.
\<close>

record 'w component_context =
  tr :: "string \<Rightarrow> string"
  moveContentNodes :: "string list \<Rightarrow> string \<Rightarrow> ('w, string list) action"
  showSnackbar :: "snackbar \<Rightarrow> ('w, unit) action"
  clipboard_copy :: "string \<Rightarrow> string \<Rightarrow> ('w, unit) action"
  dispatch_copyContentNode :: "string \<Rightarrow> string \<Rightarrow> bool \<Rightarrow> ('w, node list) action"

definition removeNode :: "'w component_context \<Rightarrow> component \<Rightarrow> ('w, unit) action" where
  "removeNode ui this w =
     (case moveContentNodes ui [nodeId this] (trashId this) w of
        (Inl e, w1) \<Rightarrow> (Inl e, w1)
      | (Inr _, w1) \<Rightarrow>
          showSnackbar ui
            \<lparr> text' = tr ui ''removedItems'',
              actionText = tr ui ''undo'',
              duration = JUndefined,
              actionCallback = (\<lambda>args. [Revert []]) \<rparr> w1)"

text \<open>The first snackbar of the next two is shown without waiting for it.\<close>

definition copyToClipboard :: "'w component_context \<Rightarrow> component \<Rightarrow> ('w, unit) action" where
  "copyToClipboard ui this w =
     (case showSnackbar ui
             \<lparr> text' = tr ui ''creatingClipboardCopies'',
               actionText = tr ui ''cancel'',
               duration = JNull,
               actionCallback = (\<lambda>args. [Revert []]) \<rparr> w of
        (_, w1) \<Rightarrow>
          (case clipboard_copy ui (node_node_id this) (node_channel_id this) w1 of
             (Inl e, w2) \<Rightarrow> (Inl e, w2)
           | (Inr _, w2) \<Rightarrow>
               showSnackbar ui
                 \<lparr> text' = tr ui ''copiedToClipboardSnackbar'',
                   actionText = tr ui ''undo'',
                   duration = JUndefined,
                   actionCallback = (\<lambda>args. [Revert []]) \<rparr> w2))"

definition duplicateNode :: "'w component_context \<Rightarrow> component \<Rightarrow> ('w, unit) action" where
  "duplicateNode ui this w =
     (case showSnackbar ui
             \<lparr> text' = tr ui ''creatingCopies'',
               actionText = tr ui ''cancel'',
               duration = JNull,
               actionCallback = (\<lambda>args. [Revert []]) \<rparr> w of
        (_, w1) \<Rightarrow>
          (let target = node_parent this
           in case dispatch_copyContentNode ui (nodeId this) target True w1 of
                (Inl e, w2) \<Rightarrow> (Inl e, w2)
              | (Inr _, w2) \<Rightarrow>
                  showSnackbar ui
                    \<lparr> text' = tr ui ''copiedSnackbar'',
                      actionText = tr ui ''undo'',
                      duration = JUndefined,
                      actionCallback = (\<lambda>args. [Revert []]) \<rparr> w2))"

text \<open>A world that records what the component asked for, and answers from the record.\<close>

datatype ui_event =
    Moved "string list" string
  | Shown snackbar
  | Clipboard_copied string string
  | Node_copied string string bool

record ui_responses =
  move_response :: "ui_event list \<Rightarrow> error + string list"
  snackbar_response :: "ui_event list \<Rightarrow> error + unit"
  clipboard_response :: "ui_event list \<Rightarrow> error + unit"
  duplicate_response :: "ui_event list \<Rightarrow> error + node list"

definition ui_recording :: "ui_responses \<Rightarrow> ui_event list component_context" where
  "ui_recording r =
    \<lparr> tr = (\<lambda>key. key),
      moveContentNodes = (\<lambda>id__in parent t.
        (move_response r (t @ [Moved id__in parent]), t @ [Moved id__in parent])),
      showSnackbar = (\<lambda>sb t. (snackbar_response r (t @ [Shown sb]), t @ [Shown sb])),
      clipboard_copy = (\<lambda>node_id channel_id t.
        (clipboard_response r (t @ [Clipboard_copied node_id channel_id]),
         t @ [Clipboard_copied node_id channel_id])),
      dispatch_copyContentNode = (\<lambda>i target deep t.
        (duplicate_response r (t @ [Node_copied i target deep]),
         t @ [Node_copied i target deep])) \<rparr>"

text \<open>The snackbars a run has shown, in order.\<close>

definition shown :: "ui_event list \<Rightarrow> snackbar list" where
  "shown t = concat (map (\<lambda>e. case e of Shown sb \<Rightarrow> [sb] | _ \<Rightarrow> []) t)"

definition example_ui_responses :: ui_responses where
  "example_ui_responses =
    \<lparr> move_response = (\<lambda>t. Inr [''n1'']),
      snackbar_response = (\<lambda>t. Inr ()),
      clipboard_response = (\<lambda>t. Inr ()),
      duplicate_response = (\<lambda>t. Inr []) \<rparr>"

definition example_component :: component where
  "example_component =
    \<lparr> nodeId = ''n1'', trashId = ''trash'', node_parent = ''p1'',
      node_node_id = ''nn1'', node_channel_id = ''ch1'' \<rparr>"

text \<open>Answers under which the move and both copies are rejected.\<close>

definition rejecting_ui_responses :: ui_responses where
  "rejecting_ui_responses =
    \<lparr> move_response = (\<lambda>t. Inl (Error ''Network Error'')),
      snackbar_response = (\<lambda>t. Inr ()),
      clipboard_response = (\<lambda>t. Inl (Error ''Network Error'')),
      duplicate_response = (\<lambda>t. Inl (Error ''Network Error'')) \<rparr>"

section \<open>\<^verbatim>\<open>shared/data/constants.js\<close>\<close>

datatype change_type = CREATED | UPDATED | DELETED | MOVED | COPIED

fun CHANGE_TYPES :: "change_type \<Rightarrow> nat" where
  "CHANGE_TYPES CREATED = 1"
| "CHANGE_TYPES UPDATED = 2"
| "CHANGE_TYPES DELETED = 3"
| "CHANGE_TYPES MOVED = 4"
| "CHANGE_TYPES COPIED = 5"

definition IGNORED_SOURCE :: string where
  "IGNORED_SOURCE = ''IGNORED_SOURCE''"

definition REVERT_SOURCE :: string where
  "REVERT_SOURCE = ''REVERT/'' @ IGNORED_SOURCE"

fun RELATIVE_TREE_POSITIONS :: "position \<Rightarrow> string" where
  "RELATIVE_TREE_POSITIONS FIRST_CHILD = ''first-child''"
| "RELATIVE_TREE_POSITIONS LAST_CHILD = ''last-child''"
| "RELATIVE_TREE_POSITIONS LEFT = ''left''"
| "RELATIVE_TREE_POSITIONS RIGHT = ''right''"

section \<open>The change log and the change tracker, from the specification\<close>

text \<open>
  The files give the change types and the two source tags above, and the callers of
  \<^verbatim>\<open>withChangeTracker\<close>. The Change Log and the Change Tracker themselves
  (\<^verbatim>\<open>shared/data/changes\<close>) are not among them; the definitions of this section follow the
  spec's sections 3, 4.1 and 4.2.
\<close>

text \<open>
  Modelled from the spec: the Local Store, "a persistent key/value table set, keyed by
  (table, key), holding the current materialized state of entities". A row maps field
  names to values.
\<close>

type_synonym row = "string \<rightharpoonup> jsval"
type_synonym entity = "string \<times> string"
type_synonym local_store = "entity \<rightharpoonup> row"

text \<open>
  Modelled from the spec: the payload of a Change Record, "the delta or full snapshot
  needed to replay or revert the mutation". A snapshot is the whole row (the created
  object, the pre-delete snapshot, the copy). A delta gives the new and the prior value of
  every field it touches (\<open>None\<close> as a value: the field is absent). A placement gives the
  new and the prior parent and position of a moved entity.
\<close>

datatype payload =
    Snapshot row
  | Delta "string \<rightharpoonup> jsval option" "string \<rightharpoonup> jsval option"
  | Placement "jsval option \<times> jsval option" "jsval option \<times> jsval option"

datatype sync_state = PENDING | IN_FLIGHT | SYNCED | FAILED

text \<open>
  Modelled from the spec: the Change Record, with the fields of the spec's section 3.
\<close>

record change =
  table :: string
  key :: string
  type :: change_type
  payload :: payload
  source :: string
  sequence :: nat
  syncState :: sync_state

record tracker_state =
  store :: local_store
  change_log :: "change list"

text \<open>
  Modelled from the spec: the Local Store write a Change Record stands for. A created or
  copied entity is stored with its snapshot, "entities exist until a DELETED Change Record
  is committed", an update writes its delta onto the row and a move sets the row's parent
  and position. A record whose payload does not fit its type writes nothing, and so does an
  update or a move of an entity that is not there.
\<close>

definition apply_delta :: "(string \<rightharpoonup> jsval option) \<Rightarrow> row \<Rightarrow> row" where
  "apply_delta d r = (\<lambda>f. case d f of None \<Rightarrow> r f | Some v \<Rightarrow> v)"

definition place :: "jsval option \<times> jsval option \<Rightarrow> row \<Rightarrow> row" where
  "place p r = r(''parent'' := fst p, ''position'' := snd p)"

definition apply_change :: "change \<Rightarrow> local_store \<Rightarrow> local_store" where
  "apply_change c st =
     (let e = (table c, key c)
      in case (type c, payload c) of
           (CREATED, Snapshot r) \<Rightarrow> st(e \<mapsto> r)
         | (COPIED, Snapshot r) \<Rightarrow> st(e \<mapsto> r)
         | (DELETED, _) \<Rightarrow> st(e := None)
         | (UPDATED, Delta d prior) \<Rightarrow>
             (case st e of None \<Rightarrow> st | Some r \<Rightarrow> st(e \<mapsto> apply_delta d r))
         | (MOVED, Placement p prior) \<Rightarrow>
             (case st e of None \<Rightarrow> st | Some r \<Rightarrow> st(e \<mapsto> place p r))
         | _ \<Rightarrow> st)"

text \<open>
  Modelled from the spec: the Change Log of section 4.1. \<open>sequence\<close> is "strictly
  increasing, assigned at append time"; \<open>append(change)\<close> "assigns the next sequence,
  stores atomically with the Local Store write it accompanies"; \<open>entriesSince(sequence)\<close>
  produces the records "with sequence \<open>\<ge>\<close> given watermark", in log order. The first
  sequence is 0, and 0 is also the current maximum of an empty log.
\<close>

definition current_max_sequence :: "change list \<Rightarrow> nat" where
  "current_max_sequence l = fold (\<lambda>c m. max (sequence c) m) l 0"

definition next_sequence :: "change list \<Rightarrow> nat" where
  "next_sequence l = (if l = [] then 0 else Suc (current_max_sequence l))"

definition append_change :: "change \<Rightarrow> tracker_state \<Rightarrow> tracker_state" where
  "append_change c s =
     (let c' = c\<lparr>sequence := next_sequence (change_log s)\<rparr>
      in \<lparr>store = apply_change c' (store s), change_log = change_log s @ [c']\<rparr>)"

definition entriesSince :: "nat \<Rightarrow> change list \<Rightarrow> change list" where
  "entriesSince w l = filter (\<lambda>c. w \<le> sequence c) l"

text \<open>
  Modelled from the spec: the ignored sources. "A distinguished IGNORED_SOURCE tag (and its
  REVERT variant) marks changes that must not themselves be tracked for sync or
  re-reverted." The two tags are the constants of \<^verbatim>\<open>constants.js\<close>.
\<close>

definition ignored :: "string \<Rightarrow> bool" where
  "ignored src = (src = IGNORED_SOURCE \<or> src = REVERT_SOURCE)"

text \<open>
  Modelled from the spec: the Change Tracker of section 4.2. \<open>begin()\<close> gives a "Session
  with watermark = current max sequence". \<open>revert()\<close> selects, at revert time, "every entry
  with sequence \<open>\<ge>\<close> watermark and tagged with a non-ignored source"; "for each, in reverse
  chronological order, emits the inverse operation", applies it and tags it "with the
  REVERT source". The inverse of CREATED is DELETED of the same key, of DELETED is CREATED
  with the pre-delete snapshot, of UPDATED is UPDATED with the prior field values, of MOVED
  is the move back to the prior parent and position, of COPIED is the delete of the copy.
  A conflict with another session's change does not stop the revert ("proceed").
\<close>

record session =
  watermark :: nat

definition begin_session :: "tracker_state \<Rightarrow> session" where
  "begin_session s = \<lparr>watermark = current_max_sequence (change_log s)\<rparr>"

definition revert_selection :: "session \<Rightarrow> tracker_state \<Rightarrow> change list" where
  "revert_selection sess s =
     filter (\<lambda>c. \<not> ignored (source c)) (entriesSince (watermark sess) (change_log s))"

fun inverse_type :: "change_type \<Rightarrow> change_type" where
  "inverse_type CREATED = DELETED"
| "inverse_type DELETED = CREATED"
| "inverse_type UPDATED = UPDATED"
| "inverse_type MOVED = MOVED"
| "inverse_type COPIED = DELETED"

fun inverse_payload :: "payload \<Rightarrow> payload" where
  "inverse_payload (Snapshot r) = Snapshot r"
| "inverse_payload (Delta d prior) = Delta prior d"
| "inverse_payload (Placement p prior) = Placement prior p"

definition inverse_change :: "change \<Rightarrow> change" where
  "inverse_change c =
     c\<lparr>type := inverse_type (type c), payload := inverse_payload (payload c),
       source := REVERT_SOURCE, syncState := PENDING\<rparr>"

fun revert_each :: "change list \<Rightarrow> tracker_state \<Rightarrow> tracker_state" where
  "revert_each [] s = s"
| "revert_each (c # cs) s = revert_each cs (append_change (inverse_change c) s)"

definition revert :: "session \<Rightarrow> tracker_state \<Rightarrow> tracker_state" where
  "revert sess s = revert_each (rev (revert_selection sess s)) s"

text \<open>
  Modelled from the spec: what the Sync Engine's drain looks at, "PENDING records in
  ascending sequence", the ignored sources left out.
\<close>

definition drain_candidates :: "change list \<Rightarrow> change list" where
  "drain_candidates l = filter (\<lambda>c. syncState c = PENDING \<and> \<not> ignored (source c)) l"

text \<open>What a record says, apart from its place in the log and its sync state.\<close>

definition operation_of :: "change \<Rightarrow> string \<times> string \<times> change_type \<times> payload" where
  "operation_of c = (table c, key c, type c, payload c)"


text \<open>
  Modelled from the spec: the tracked mutations, "creates, updates, deletes, moves, copies",
  each of which appends one Change Record whose payload is "the delta or full snapshot
  needed to replay or revert the mutation". A create and a copy bring a new entity into
  existence under a key the client assigned before; an update, a delete and a move act on
  an entity that exists ("entities exist until a DELETED Change Record is committed"). A
  mutation that cannot be applied is rejected with a \<open>LocalWriteError\<close> and leaves store and
  log as they were ("no partial commit"). The record of an update carries the prior value
  of every field of its delta, that of a delete the pre-delete snapshot, that of a move the
  prior parent and position, that of a copy the snapshot of the copy at its target.
\<close>

datatype mutation =
    Create string string row
  | Update string string "string \<rightharpoonup> jsval option"
  | Delete string string
  | Move string string string position
  | Copy string string string string position

datatype local_error = LocalWriteError

definition placement :: "string \<Rightarrow> position \<Rightarrow> jsval option \<times> jsval option" where
  "placement target pos = (Some (JStr target), Some (JStr (RELATIVE_TREE_POSITIONS pos)))"

definition new_change :: "string \<Rightarrow> string \<Rightarrow> string \<Rightarrow> change_type \<Rightarrow> payload \<Rightarrow> change" where
  "new_change src t k ty p =
     \<lparr>table = t, key = k, type = ty, payload = p, source = src, sequence = 0,
      syncState = PENDING\<rparr>"

fun change_for :: "string \<Rightarrow> mutation \<Rightarrow> local_store \<Rightarrow> change option" where
  "change_for src (Create t k r) st =
     (case st (t, k) of
        None \<Rightarrow> Some (new_change src t k CREATED (Snapshot r))
      | Some _ \<Rightarrow> None)"
| "change_for src (Update t k d) st =
     (case st (t, k) of
        None \<Rightarrow> None
      | Some r \<Rightarrow>
          Some (new_change src t k UPDATED
                  (Delta d (\<lambda>f. case d f of None \<Rightarrow> None | Some _ \<Rightarrow> Some (r f)))))"
| "change_for src (Delete t k) st =
     (case st (t, k) of
        None \<Rightarrow> None
      | Some r \<Rightarrow> Some (new_change src t k DELETED (Snapshot r)))"
| "change_for src (Move t k target pos) st =
     (case st (t, k) of
        None \<Rightarrow> None
      | Some r \<Rightarrow>
          Some (new_change src t k MOVED
                  (Placement (placement target pos) (r ''parent'', r ''position''))))"
| "change_for src (Copy t original k target pos) st =
     (case (st (t, original), st (t, k)) of
        (Some r, None) \<Rightarrow>
          Some (new_change src t k COPIED (Snapshot (place (placement target pos) r)))
      | _ \<Rightarrow> None)"

definition tracked_mutation ::
  "string \<Rightarrow> mutation \<Rightarrow> tracker_state \<Rightarrow> local_error + tracker_state" where
  "tracked_mutation src m s =
     (case change_for src m (store s) of
        None \<Rightarrow> Inl LocalWriteError
      | Some c \<Rightarrow> Inr (append_change c s))"

text \<open>A unit of work: its mutations one after the other; a rejected one changes nothing.\<close>

fun run_session :: "string \<Rightarrow> mutation list \<Rightarrow> tracker_state \<Rightarrow> tracker_state" where
  "run_session src [] s = s"
| "run_session src (m # ms) s =
     (case tracked_mutation src m s of
        Inl e \<Rightarrow> run_session src ms s
      | Inr s' \<Rightarrow> run_session src ms s')"

text \<open>
  A scenario, from the empty store and log. A content node \<open>n1\<close> is created under \<open>root\<close>.
  A first tracked action removes it (a move to the trash, as \<^verbatim>\<open>removeNode\<close> does) and
  ends. A second tracked action then begins, copies \<open>n1\<close> to \<open>n2\<close> under \<open>root\<close> (as
  \<^verbatim>\<open>duplicateNode\<close> does), and is reverted.
\<close>

definition client_source :: string where
  "client_source = ''client''"

definition empty_state :: tracker_state where
  "empty_state = \<lparr>store = Map.empty, change_log = []\<rparr>"

definition n1_row :: row where
  "n1_row = [''title'' \<mapsto> JStr ''Algebra'', ''parent'' \<mapsto> JStr ''root'',
             ''position'' \<mapsto> JStr ''last-child'']"

definition after_create :: tracker_state where
  "after_create = run_session client_source [Create ''contentnode'' ''n1'' n1_row] empty_state"

definition after_remove :: tracker_state where
  "after_remove =
     run_session client_source [Move ''contentnode'' ''n1'' ''trash'' LAST_CHILD] after_create"

definition second_session :: session where
  "second_session = begin_session after_remove"

definition after_copy :: tracker_state where
  "after_copy =
     run_session client_source [Copy ''contentnode'' ''n1'' ''n2'' ''root'' LAST_CHILD]
       after_remove"

definition after_revert :: tracker_state where
  "after_revert = revert second_session after_copy"

text \<open>
  The spec's own scenario: on the empty store and log a session begins, creates topic \<open>T1\<close>
  and resource \<open>R1\<close> under it, and is reverted.
\<close>

definition after_fresh_revert :: tracker_state where
  "after_fresh_revert =
     revert (begin_session empty_state)
       (run_session client_source
          [Create ''contentnode'' ''T1'' [''title'' \<mapsto> JStr ''T1'', ''kind'' \<mapsto> JStr ''topic''],
           Create ''contentnode'' ''R1'' [''title'' \<mapsto> JStr ''R1'', ''parent'' \<mapsto> JStr ''T1'']]
          empty_state)"

section \<open>Properties of \<^verbatim>\<open>updateContentNode\<close>\<close>

lemma map_of_set_prop: "map_of (set_prop obj k v) = (map_of obj)(k \<mapsto> v)"
  by (induction obj) auto

lemma get_prop_set_prop:
  "get_prop (set_prop obj k v) k' = (if k' = k then v else get_prop obj k')"
  by (simp add: get_prop_def map_of_set_prop)

lemma keys_set_prop: "set (Object_keys (set_prop obj k v)) = insert k (set (Object_keys obj))"
  by (simp add: Object_keys_def dom_map_of_conv_image_fst [symmetric] map_of_set_prop)

lemma param_not_undefined: "param pl k \<noteq> JUndefined"
  by (simp add: param_def split: jsval.splits)

lemma keys_mark_changed:
  "k' \<in> set (Object_keys (mark_changed d)) \<longleftrightarrow>
     k' \<in> set (Object_keys d) \<or> (k' = ''changed'' \<and> (\<exists>f. f \<in> set (Object_keys d)))"
  by (cases "Object_keys d") (auto simp: mark_changed_def keys_set_prop)

lemma get_prop_mark_changed:
  "get_prop (mark_changed d) k' =
     (if k' = ''changed'' \<and> Object_keys d \<noteq> [] then JBool True else get_prop d k')"
  by (simp add: mark_changed_def get_prop_set_prop)

lemma assign_truthy_member_ok:
  "x \<noteq> JNull \<Longrightarrow> x \<noteq> JUndefined \<Longrightarrow> \<exists>ef'. assign_truthy_member x k ef = Inr ef'"
  by (cases x) (simp_all add: assign_truthy_member_def bindE_def)

lemma assign_extra_fields_ok:
  assumes "x \<noteq> JNull" and "x \<noteq> JUndefined"
  shows "\<exists>ef. assign_extra_fields x d =
           Inr (if x \<noteq> NOVALUE then set_prop d ''extra_fields'' (JObj ef) else d)"
proof (cases "x = NOVALUE")
  case True
  then show ?thesis by (simp add: assign_extra_fields_def)
next
  case False
  define ef0 where "ef0 = (case get_prop d ''extra_fields'' of JObj ps \<Rightarrow> ps | _ \<Rightarrow> [])"
  obtain ef1 where 1: "assign_truthy_member x ''type'' ef0 = Inr ef1"
    using assign_truthy_member_ok [OF assms] by blast
  obtain ef2 where 2: "assign_truthy_member x ''m'' ef1 = Inr ef2"
    using assign_truthy_member_ok [OF assms] by blast
  obtain ef3 where 3: "assign_truthy_member x ''n'' ef2 = Inr ef3"
    using assign_truthy_member_ok [OF assms] by blast
  obtain ef4 where 4: "assign_truthy_member x ''randomize'' ef3 = Inr ef4"
    using assign_truthy_member_ok [OF assms] by blast
  have "assign_extra_fields x d = Inr (set_prop d ''extra_fields'' (JObj ef4))"
    using False 1 2 3 4 by (simp add: assign_extra_fields_def bindE_def ef0_def)
  with False show ?thesis by auto
qed

lemma assign_extra_fields_null:
  "assign_extra_fields JNull d = Inl (TypeError ''Cannot read property of null'')"
  by (simp add: assign_extra_fields_def assign_truthy_member_def bindE_def)



lemma generate_form:
  assumes nn: "param pl ''extra_fields'' \<noteq> JNull"
  shows "\<exists>ef. generateContentNodeData S pl =
    Inr (mark_changed
      (assign_given ''complete'' (param pl ''complete'')
      (assign_given ''prerequisite'' (param pl ''prerequisite'')
      (assign_given ''extra_fields''
         (if param pl ''extra_fields'' \<noteq> NOVALUE then JObj ef else NOVALUE)
      (assign_given ''provider'' (param pl ''provider'')
      (assign_given ''aggregator'' (param pl ''aggregator'')
      (assign_given ''role_visibility'' (param pl ''role_visibility'')
      (assign_given ''author'' (param pl ''author'')
      (assign_given ''copyright_holder'' (param pl ''copyright_holder'')
      (assign_given ''license_description'' (param pl ''license_description'')
      (assign_given ''license'' (param pl ''license'')
      (assign_given ''language'' (param pl ''language'')
      (assign_stringified S ''thumbnail_encoding'' (param pl ''thumbnail_encoding'')
      (assign_given ''description'' (param pl ''description'')
      (assign_given ''title'' (param pl ''title'') [])))))))))))))))"
proof -
  let ?x = "param pl ''extra_fields''"
  let ?D = "(assign_given ''provider'' (param pl ''provider'')
      (assign_given ''aggregator'' (param pl ''aggregator'')
      (assign_given ''role_visibility'' (param pl ''role_visibility'')
      (assign_given ''author'' (param pl ''author'')
      (assign_given ''copyright_holder'' (param pl ''copyright_holder'')
      (assign_given ''license_description'' (param pl ''license_description'')
      (assign_given ''license'' (param pl ''license'')
      (assign_given ''language'' (param pl ''language'')
      (assign_stringified S ''thumbnail_encoding'' (param pl ''thumbnail_encoding'')
      (assign_given ''description'' (param pl ''description'')
      (assign_given ''title'' (param pl ''title'') [])))))))))))"
  obtain ef where ef: "assign_extra_fields ?x ?D =
      Inr (if ?x \<noteq> NOVALUE then set_prop ?D ''extra_fields'' (JObj ef) else ?D)"
    using assign_extra_fields_ok [OF nn param_not_undefined] by blast
  have "(if ?x \<noteq> NOVALUE then set_prop ?D ''extra_fields'' (JObj ef) else ?D) =
      assign_given ''extra_fields'' (if ?x \<noteq> NOVALUE then JObj ef else NOVALUE) ?D"
    unfolding assign_given_def [of "''extra_fields''"] by simp
  with ef have "assign_extra_fields ?x ?D =
      Inr (assign_given ''extra_fields'' (if ?x \<noteq> NOVALUE then JObj ef else NOVALUE) ?D)"
    by (simp only:)
  then show ?thesis
    unfolding generateContentNodeData_def Let_def bindE_def by (intro exI) (simp only: sum.case)
qed




lemma keys_fold_assign:
  "set (Object_keys (fold (\<lambda>(c, k, v). assign_if c k v) l d0)) =
     set (Object_keys d0) \<union> {k. \<exists>v. (True, k, v) \<in> set l}"
  by (induction l arbitrary: d0) (auto simp: keys_set_prop assign_if_def split: if_splits)

lemma get_prop_fold_assign_other:
  "k \<notin> (\<lambda>(c, k, v). k) ` set l \<Longrightarrow>
     get_prop (fold (\<lambda>(c, k, v). assign_if c k v) l d0) k = get_prop d0 k"
  by (induction l arbitrary: d0) (auto simp: get_prop_set_prop assign_if_def)

lemma get_prop_fold_assign:
  "distinct (map (\<lambda>(c, k, v). k) l) \<Longrightarrow> (c, k, v) \<in> set l \<Longrightarrow>
     get_prop (fold (\<lambda>(c, k, v). assign_if c k v) l d0) k =
       (if c then v else get_prop d0 k)"
proof (induction l arbitrary: d0)
  case Nil
  then show ?case by simp
next
  case (Cons a l)
  show ?case
  proof (cases "a = (c, k, v)")
    case True
    with Cons.prems have "k \<notin> (\<lambda>(c, k, v). k) ` set l"
      by auto
    then have "get_prop (fold (\<lambda>(c, k, v). assign_if c k v) l (assign_if c k v d0)) k =
        get_prop (assign_if c k v d0) k"
      by (rule get_prop_fold_assign_other)
    moreover have "get_prop (assign_if c k v d0) k = (if c then v else get_prop d0 k)"
      by (simp add: get_prop_set_prop assign_if_def)
    ultimately show ?thesis
      using True by simp
  next
    case False
    with Cons.prems have in_l: "(c, k, v) \<in> set l" and "distinct (map (\<lambda>(c, k, v). k) l)"
      and "(\<lambda>(c, k, v). k) a \<noteq> k"
      by (auto simp: image_iff)
    obtain c' k' v' where a: "a = (c', k', v')"
      by (cases a)
    with \<open>(\<lambda>(c, k, v). k) a \<noteq> k\<close> have "k' \<noteq> k"
      by simp
    then have "get_prop (assign_if c' k' v' d0) k = get_prop d0 k"
      by (simp add: get_prop_set_prop assign_if_def)
    with Cons.IH [of "assign_if c' k' v' d0"] in_l \<open>distinct (map (\<lambda>(c, k, v). k) l)\<close> a
    show ?thesis
      by simp
  qed
qed

lemma generate_fold:
  assumes "generateContentNodeData S pl = Inr d"
  shows "\<exists>ef. d = mark_changed (fold (\<lambda>(c, k, v). assign_if c k v) (assignments S pl ef) [])"
proof -
  have nn: "param pl ''extra_fields'' \<noteq> JNull"
    using assms assign_extra_fields_null [of "assign_given ''provider'' (param pl ''provider'') _"]
    unfolding generateContentNodeData_def Let_def
    by (auto simp add: bindE_def)
  from generate_form [OF nn, of S] assms obtain ef where
    d: "d = mark_changed
      (assign_given ''complete'' (param pl ''complete'')
      (assign_given ''prerequisite'' (param pl ''prerequisite'')
      (assign_given ''extra_fields''
         (if param pl ''extra_fields'' \<noteq> NOVALUE then JObj ef else NOVALUE)
      (assign_given ''provider'' (param pl ''provider'')
      (assign_given ''aggregator'' (param pl ''aggregator'')
      (assign_given ''role_visibility'' (param pl ''role_visibility'')
      (assign_given ''author'' (param pl ''author'')
      (assign_given ''copyright_holder'' (param pl ''copyright_holder'')
      (assign_given ''license_description'' (param pl ''license_description'')
      (assign_given ''license'' (param pl ''license'')
      (assign_given ''language'' (param pl ''language'')
      (assign_stringified S ''thumbnail_encoding'' (param pl ''thumbnail_encoding'')
      (assign_given ''description'' (param pl ''description'')
      (assign_given ''title'' (param pl ''title'') []))))))))))))))"
    by auto
  have g: "assign_given k v d0 = assign_if (v \<noteq> NOVALUE) k v d0" for k v d0
    by (simp add: assign_given_def assign_if_def)
  have x: "assign_given k (if c then JObj ef else NOVALUE) d0 =
      assign_if c k (if c then JObj ef else NOVALUE) d0" for k c d0
    by (simp add: assign_given_def assign_if_def)
  have s: "assign_stringified S k v d0 = assign_if (v \<noteq> NOVALUE) k (S v) d0" for k v d0
    by (simp add: assign_stringified_def assign_if_def)
  show ?thesis
    unfolding d assignments_def content_fields_def x s
    by (rule exI [of _ ef]) (simp add: g split del: if_split)
qed


lemma keys_generate:
  assumes "generateContentNodeData S pl = Inr d"
  shows "k \<in> set (Object_keys d) \<longleftrightarrow>
           provided pl k \<or> (k = ''changed'' \<and> (\<exists>f. provided pl f))"
proof -
  from generate_fold [OF assms] obtain ef where
    d: "d = mark_changed (fold (\<lambda>(c, k, v). assign_if c k v) (assignments S pl ef) [])"
    by blast
  have "set (Object_keys (fold (\<lambda>(c, k, v). assign_if c k v) (assignments S pl ef) [])) =
      {k. provided pl k}"
    unfolding keys_fold_assign
    by (auto simp: assignments_def provided_def Object_keys_def)
  then show ?thesis
    unfolding d keys_mark_changed by auto
qed

lemma distinct_assignments: "distinct (map (\<lambda>(c, k, v). k) (assignments S pl ef))"
proof -
  have "map (\<lambda>(c, k, v). k) (assignments S pl ef) = content_fields"
    unfolding assignments_def by (simp add: comp_def)
  then show ?thesis
    by (simp add: content_fields_def)
qed

lemma values_generate:
  assumes "generateContentNodeData S pl = Inr d" and "provided pl k"
  shows "get_prop d k =
    (if k = ''thumbnail_encoding'' then S (param pl k)
     else if k = ''extra_fields'' then JObj (case get_prop d k of JObj ef \<Rightarrow> ef)
     else param pl k)"
    and "get_prop d ''changed'' = JBool True"
proof -
  from generate_fold [OF assms(1)] obtain ef where
    d: "d = mark_changed (fold (\<lambda>(c, k, v). assign_if c k v) (assignments S pl ef) [])"
    by blast
  let ?d' = "fold (\<lambda>(c, k, v). assign_if c k v) (assignments S pl ef) []"
  from assms(2) have k: "k \<in> set content_fields" "param pl k \<noteq> NOVALUE"
    by (auto simp: provided_def)
  then have "k \<noteq> ''changed''"
    by (auto simp: content_fields_def)
  from k have "(True, k, if k = ''thumbnail_encoding'' then S (param pl k)
       else if k = ''extra_fields'' then (if param pl k \<noteq> NOVALUE then JObj ef else NOVALUE)
       else param pl k) \<in> set (assignments S pl ef)"
    unfolding assignments_def by (auto simp: image_iff)
  from get_prop_fold_assign [OF distinct_assignments this, of "[]"]
  have "get_prop ?d' k = (if k = ''thumbnail_encoding'' then S (param pl k)
       else if k = ''extra_fields'' then (if param pl k \<noteq> NOVALUE then JObj ef else NOVALUE)
       else param pl k)"
    by simp
  with \<open>k \<noteq> ''changed''\<close> k(2) show "get_prop d k =
    (if k = ''thumbnail_encoding'' then S (param pl k)
     else if k = ''extra_fields'' then JObj (case get_prop d k of JObj ef \<Rightarrow> ef)
     else param pl k)"
    unfolding d by (auto simp add: get_prop_mark_changed)
  have "k \<in> set (Object_keys ?d')"
    unfolding keys_fold_assign using k
    by (auto simp: assignments_def image_iff)
  then have "Object_keys ?d' \<noteq> []"
    by auto
  then show "get_prop d ''changed'' = JBool True"
    unfolding d by (simp add: get_prop_mark_changed)
qed

lemma get_prop_rest_without:
  "get_prop (rest_without k0 obj) k = (if k = k0 then JUndefined else get_prop obj k)"
  unfolding get_prop_def rest_without_def by (induction obj) auto

lemma provided_rest_without: "provided (rest_without ''id'' arg) k = provided arg k"
  by (auto simp: provided_def param_def get_prop_rest_without content_fields_def)

lemma param_rest_without: "k \<noteq> ''id'' \<Longrightarrow> param (rest_without ''id'' arg) k = param arg k"
  by (simp add: param_def get_prop_rest_without)

lemma partial_update_frame:
  "k \<notin> set (Object_keys upd) \<Longrightarrow> get_prop (partial_update entity upd) k = get_prop entity k"
  unfolding partial_update_def Object_keys_def
  by (induction upd arbitrary: entity) (auto simp: get_prop_set_prop)

lemma generate_null_extra_fields:
  assumes "param pl ''extra_fields'' = JNull"
  shows "generateContentNodeData S pl = Inl (TypeError ''Cannot read property of null'')"
  unfolding generateContentNodeData_def Let_def assms
  by (simp add: assign_extra_fields_null bindE_def)

lemma generate_total:
  assumes "param pl ''extra_fields'' \<noteq> JNull"
  shows "\<exists>d. generateContentNodeData S pl = Inr d"
  using generate_form [OF assms] by blast

text \<open>
  C10 as stated, at two calls with a defined id. With a field that
  \<^verbatim>\<open>generateContentNodeData\<close> does not destructure (here \<^verbatim>\<open>tags\<close>), the field is
  provided and yet the committed update holds the id only. With \<^verbatim>\<open>extra_fields: null\<close>
  the member read throws, and nothing is committed.
\<close>

theorem updateContentNode_unrecognised_field_and_null_extra_fields:
  "truthy (get_prop tags_update ''id'') \<and>
   get_prop tags_update ''tags'' = JObj [(''algebra'', JBool True)] \<and>
   updateContentNode (\<lambda>v. v) (recording example_responses) tags_update [] =
     (Inr (JNum 1),
      [Commit_UPDATE_CONTENTNODE [(''id'', JStr ''n1'')], Call_update (JStr ''n1'') []]) \<and>
   truthy (get_prop null_extra_fields_update ''id'') \<and>
   updateContentNode (\<lambda>v. v) (recording example_responses) null_extra_fields_update [] =
     (Inl (TypeError ''Cannot read property of null''), [])"
  by code_simp

text \<open>
  C10, amended. \<^verbatim>\<open>updateContentNode\<close> with a defined (truthy) id and an
  \<^verbatim>\<open>extra_fields\<close> that is not \<open>null\<close> commits exactly one update and sends it to
  \<^verbatim>\<open>ContentNode.update\<close>. Its keys are exactly the fields, among the fourteen that
  \<^verbatim>\<open>generateContentNodeData\<close> destructures, that the argument provides with a value other
  than \<open>undefined\<close> and the sentinel, plus \<^verbatim>\<open>changed\<close>, set to \<open>true\<close>, when there is at
  least one. A provided field carries the argument's value (\<^verbatim>\<open>thumbnail_encoding\<close>
  stringified, \<^verbatim>\<open>extra_fields\<close> rebuilt). Every field of the entity that is not a key of
  the update is unchanged by the partial update.
\<close>

theorem updateContentNode_touches_only_provided_fields:
  assumes "truthy (get_prop arg ''id'')" and "param arg ''extra_fields'' \<noteq> JNull"
  shows "\<exists>upd.
      updateContentNode S ctx arg w =
        ContentNode_update ctx (get_prop arg ''id'') upd
          (commit_UPDATE_CONTENTNODE ctx ((''id'', get_prop arg ''id'') # upd) w) \<and>
      (\<forall>k. k \<in> set (Object_keys upd) \<longleftrightarrow>
         provided arg k \<or> (k = ''changed'' \<and> (\<exists>f. provided arg f))) \<and>
      ((\<exists>f. provided arg f) \<longrightarrow> get_prop upd ''changed'' = JBool True) \<and>
      (\<forall>k. provided arg k \<longrightarrow> k \<noteq> ''thumbnail_encoding'' \<longrightarrow> k \<noteq> ''extra_fields'' \<longrightarrow>
         get_prop upd k = param arg k) \<and>
      (\<forall>k entity. k \<notin> set (Object_keys upd) \<longrightarrow> k \<noteq> ''id'' \<longrightarrow>
         get_prop (partial_update entity ((''id'', get_prop arg ''id'') # upd)) k =
           get_prop entity k)"
proof -
  let ?pl = "rest_without ''id'' arg"
  from assms(2) have "param ?pl ''extra_fields'' \<noteq> JNull"
    by (simp add: param_rest_without)
  from generate_total [OF this] obtain upd where upd: "generateContentNodeData S ?pl = Inr upd"
    by blast
  have call: "updateContentNode S ctx arg w =
      ContentNode_update ctx (get_prop arg ''id'') upd
        (commit_UPDATE_CONTENTNODE ctx ((''id'', get_prop arg ''id'') # upd) w)"
    using assms(1) upd by (simp add: updateContentNode_def Let_def)
  have keys: "k \<in> set (Object_keys upd) \<longleftrightarrow>
      provided arg k \<or> (k = ''changed'' \<and> (\<exists>f. provided arg f))" for k
    using keys_generate [OF upd] by (simp add: provided_rest_without)
  have changed: "get_prop upd ''changed'' = JBool True" if "provided arg f" for f
    using values_generate(2) [OF upd] that by (simp add: provided_rest_without)
  have val: "get_prop upd k = param arg k"
    if "provided arg k" "k \<noteq> ''thumbnail_encoding''" "k \<noteq> ''extra_fields''" for k
  proof -
    from that(1) have "k \<noteq> ''id''"
      by (auto simp: provided_def content_fields_def)
    with values_generate(1) [OF upd, of k] that show ?thesis
      by (simp add: provided_rest_without param_rest_without)
  qed
  have frame: "get_prop (partial_update entity ((''id'', get_prop arg ''id'') # upd)) k =
      get_prop entity k" if "k \<notin> set (Object_keys upd)" "k \<noteq> ''id''" for k entity
    using that by (intro partial_update_frame) (simp add: Object_keys_def)
  show ?thesis
    apply (rule exI [of _ upd])
    apply (intro conjI allI impI)
        apply (rule call)
       apply (rule keys)
      apply (erule exE, erule changed)
     apply (erule (2) val)
    apply (erule (1) frame)
    done
qed

lemma updateContentNode_null_extra_fields:
  assumes "truthy (get_prop arg ''id'')" and "param arg ''extra_fields'' = JNull"
  shows "updateContentNode S ctx arg w = (Inl (TypeError ''Cannot read property of null''), w)"
proof -
  from assms(2) have "param (rest_without ''id'' arg) ''extra_fields'' = JNull"
    by (simp add: param_rest_without)
  from generate_null_extra_fields [OF this, of S] assms(1) show ?thesis
    by (simp add: updateContentNode_def Let_def)
qed

lemma example_update_run:
  "updateContentNode (\<lambda>v. v) (recording example_responses) example_update [] =
     (Inr (JNum 1),
      [Commit_UPDATE_CONTENTNODE
         [(''id'', JStr ''n1''), (''title'', JStr ''Algebra''), (''changed'', JBool True)],
       Call_update (JStr ''n1'') [(''title'', JStr ''Algebra''), (''changed'', JBool True)]])"
  by (simp add: updateContentNode_def example_update_def get_prop_def rest_without_def
      generateContentNodeData_def param_def assign_given_def assign_stringified_def
      assign_extra_fields_def mark_changed_def Object_keys_def bindE_def
      recording_def example_responses_def Let_def)

theorem updateContentNode_touches_only_provided_fields_witness:
  "truthy (get_prop example_update ''id'') \<and>
   param example_update ''extra_fields'' \<noteq> JNull \<and>
   (\<exists>upd.
      updateContentNode (\<lambda>v. v) (recording example_responses) example_update [] =
        ContentNode_update (recording example_responses) (get_prop example_update ''id'') upd
          (commit_UPDATE_CONTENTNODE (recording example_responses)
             ((''id'', get_prop example_update ''id'') # upd) []) \<and>
      (\<forall>k. k \<in> set (Object_keys upd) \<longleftrightarrow>
         provided example_update k \<or> (k = ''changed'' \<and> (\<exists>f. provided example_update f))) \<and>
      ((\<exists>f. provided example_update f) \<longrightarrow> get_prop upd ''changed'' = JBool True) \<and>
      (\<forall>k. provided example_update k \<longrightarrow> k \<noteq> ''thumbnail_encoding'' \<longrightarrow>
         k \<noteq> ''extra_fields'' \<longrightarrow> get_prop upd k = param example_update k) \<and>
      (\<forall>k entity. k \<notin> set (Object_keys upd) \<longrightarrow> k \<noteq> ''id'' \<longrightarrow>
         get_prop (partial_update entity ((''id'', get_prop example_update ''id'') # upd)) k =
           get_prop entity k))"
proof -
  have h: "truthy (get_prop example_update ''id'')"
    by (simp add: example_update_def get_prop_def)
  have n: "param example_update ''extra_fields'' \<noteq> JNull"
    by (simp add: example_update_def get_prop_def param_def)
  from updateContentNode_touches_only_provided_fields
    [OF h n, of "\<lambda>v. v" "recording example_responses" "[]"]
  have "\<exists>upd.
      updateContentNode (\<lambda>v. v) (recording example_responses) example_update [] =
        ContentNode_update (recording example_responses) (get_prop example_update ''id'') upd
          (commit_UPDATE_CONTENTNODE (recording example_responses)
             ((''id'', get_prop example_update ''id'') # upd) []) \<and>
      (\<forall>k. k \<in> set (Object_keys upd) \<longleftrightarrow>
         provided example_update k \<or> (k = ''changed'' \<and> (\<exists>f. provided example_update f))) \<and>
      ((\<exists>f. provided example_update f) \<longrightarrow> get_prop upd ''changed'' = JBool True) \<and>
      (\<forall>k. provided example_update k \<longrightarrow> k \<noteq> ''thumbnail_encoding'' \<longrightarrow>
         k \<noteq> ''extra_fields'' \<longrightarrow> get_prop upd k = param example_update k) \<and>
      (\<forall>k entity. k \<notin> set (Object_keys upd) \<longrightarrow> k \<noteq> ''id'' \<longrightarrow>
         get_prop (partial_update entity ((''id'', get_prop example_update ''id'') # upd)) k =
           get_prop entity k)"
    .
  with h n show ?thesis
    by (intro conjI)
qed
section \<open>Properties of the copy actions\<close>

lemma chunk_Nil: "chunk [] n = []"
  by (simp add: chunk.simps)

lemma chunk_lengths: "c \<in> set (chunk xs n) \<Longrightarrow> 0 < length c \<and> length c \<le> n"
proof (induction xs n rule: chunk.induct)
  case (1 xs n)
  show ?case
  proof (cases "n = 0 \<or> xs = []")
    case True
    with "1.prems" show ?thesis
      by (simp add: chunk.simps [of xs n])
  next
    case False
    with "1.prems" have "c = take n xs \<or> c \<in> set (chunk (drop n xs) n)"
      by (simp add: chunk.simps [of xs n])
    with False "1.IH" show ?thesis
      by auto
  qed
qed

lemma concat_chunk: "0 < n \<Longrightarrow> concat (chunk xs n) = xs"
proof (induction xs n rule: chunk.induct)
  case (1 xs n)
  show ?case
  proof (cases "xs = []")
    case True
    then show ?thesis by (simp add: chunk_Nil)
  next
    case False
    with "1.prems" "1.IH" show ?thesis
      by (simp add: chunk.simps [of xs n])
  qed
qed

lemma chunk_one: "chunk xs (Suc 0) = map (\<lambda>x. [x]) xs"
proof (induction xs)
  case Nil
  then show ?case by (simp add: chunk.simps [of "[]"])
next
  case (Cons x xs)
  then show ?case by (simp add: chunk.simps [of "x # xs"])
qed

lemma chunk_lengths_exact:
  assumes "0 < n"
  shows "map length (chunk xs n) =
    replicate (length xs div n) n @ (if length xs mod n = 0 then [] else [length xs mod n])"
  using assms
proof (induction xs n rule: chunk.induct)
  case (1 xs n)
  show ?case
  proof (cases "xs = []")
    case True
    then show ?thesis by (simp add: chunk_Nil)
  next
    case False
    with "1.prems" have c: "chunk xs n = take n xs # chunk (drop n xs) n"
      by (simp add: chunk.simps [of xs n])
    from False "1.prems" "1.IH" have IH: "map length (chunk (drop n xs) n) =
        replicate ((length xs - n) div n) n @
          (if (length xs - n) mod n = 0 then [] else [(length xs - n) mod n])"
      by simp
    show ?thesis
    proof (cases "n \<le> length xs")
      case True
      with "1.prems" have "length xs div n = Suc ((length xs - n) div n)"
        and "length xs mod n = (length xs - n) mod n"
        by (simp_all add: le_div_geq le_mod_geq)
      with True IH show ?thesis
        unfolding c by simp
    next
      case less: False
      with False have "length xs div n = 0" "length xs mod n = length xs" "length xs \<noteq> 0"
        by simp_all
      with less show ?thesis
        unfolding c by (simp add: chunk_Nil)
    qed
  qed
qed

lemma chunk_subset: "c \<in> set (chunk xs n) \<Longrightarrow> set c \<subseteq> set xs"
proof (induction xs n rule: chunk.induct)
  case (1 xs n)
  show ?case
  proof (cases "n = 0 \<or> xs = []")
    case True
    with "1.prems" show ?thesis
      by (simp add: chunk.simps [of xs n])
  next
    case False
    with "1.prems" have "c = take n xs \<or> c \<in> set (chunk (drop n xs) n)"
      by (simp add: chunk.simps [of xs n])
    with False "1.IH" show ?thesis
      by (auto dest: in_set_takeD in_set_dropD)
  qed
qed

lemma chunk_distinct:
  "c \<in> set (chunk xs n) \<Longrightarrow> distinct (map f xs) \<Longrightarrow> distinct (map f c)"
proof (induction xs n rule: chunk.induct)
  case (1 xs n)
  show ?case
  proof (cases "n = 0 \<or> xs = []")
    case True
    with "1.prems" show ?thesis
      by (simp add: chunk.simps [of xs n])
  next
    case False
    with "1.prems" have "c = take n xs \<or> c \<in> set (chunk (drop n xs) n)"
      by (simp add: chunk.simps [of xs n])
    moreover from "1.prems"(2) have "distinct (map f (take n xs))" "distinct (map f (drop n xs))"
      by (simp_all add: take_map [symmetric] drop_map [symmetric])
    ultimately show ?thesis
      using False "1.IH" by auto
  qed
qed

lemma length_own_keys_order: "length (own_keys_order ks) = length ks"
  by (simp add: own_keys_order_def sum_length_filter_compl)

lemma nodeMap_reduce_length:
  "nodeMap_reduce m ns = Inr m' \<Longrightarrow> length m' = length m + length ns"
  by (induction ns arbitrary: m) (auto split: if_splits)

lemma bounded_append: "dispatches_bounded (t @ t') \<longleftrightarrow> dispatches_bounded t \<and> dispatches_bounded t'"
  by (auto simp: dispatches_bounded_def)

lemma bounded_copy_chunk:
  assumes "dispatches_bounded t" and "length c \<le> 10"
  shows "dispatches_bounded (snd (copy_chunk (recording r) c t))"
proof (cases "nodeMap_reduce [] c")
  case (Inl e)
  with assms show ?thesis by (simp add: copy_chunk_def)
next
  case (Inr m)
  from nodeMap_reduce_length [OF this] assms(2)
  have "length (own_keys_order (map fst m)) \<le> 10"
    by (simp add: length_own_keys_order)
  with Inr assms(1) show ?thesis
    by (simp add: copy_chunk_def Promise_all_def recording_def bounded_append dispatches_bounded_def Let_def
        split: prod.splits)
qed

lemma bounded_promiseChunk_reduce:
  assumes "\<And>c t. c \<in> set cs \<Longrightarrow> dispatches_bounded t \<Longrightarrow> dispatches_bounded (snd (callback c t))"
    and "dispatches_bounded t"
  shows "dispatches_bounded (snd (promiseChunk_reduce callback cs res t))"
  using assms
proof (induction cs arbitrary: res t)
  case Nil
  then show ?case by simp
next
  case (Cons c cs)
  from Cons.prems have b: "dispatches_bounded (snd (callback c t))"
    by simp
  obtain x t' where x: "callback c t = (x, t')"
    by (cases "callback c t")
  with b have "dispatches_bounded t'" by simp
  with Cons.IH [of t'] Cons.prems(1) x show ?case
    by (cases x) auto
qed

lemma bounded_promiseChunk:
  assumes "\<And>c t. c \<in> set (chunk things n) \<Longrightarrow> dispatches_bounded t \<Longrightarrow> dispatches_bounded (snd (callback c t))"
    and "dispatches_bounded t"
  shows "dispatches_bounded (snd (promiseChunk things n callback t))"
  using assms by (auto simp: promiseChunk_def intro!: bounded_promiseChunk_reduce)

lemma bounded_copy_chunks:
  assumes "dispatches_bounded t"
  shows "dispatches_bounded (snd (promiseChunk nodes 10 (copy_chunk (recording r)) t))"
  using assms chunk_lengths [of _ nodes 10]
  by (intro bounded_promiseChunk bounded_copy_chunk) auto

lemma bounded_run_all:
  assumes "\<And>p t. p \<in> set ps \<Longrightarrow> dispatches_bounded t \<Longrightarrow> dispatches_bounded (snd (p t))" and "dispatches_bounded t"
  shows "dispatches_bounded (snd (run_all ps t))"
  using assms
proof (induction ps arbitrary: t)
  case Nil
  then show ?case by simp
next
  case (Cons p ps)
  obtain x t' where x: "p t = (x, t')"
    by (cases "p t")
  with Cons.prems(1) [of p t] Cons.prems(2) have "dispatches_bounded t'"
    by simp
  with Cons.IH [of t'] Cons.prems(1) x show ?case
    by (auto split: prod.splits)
qed

lemma copyContentNode_unfold:
  assumes "\<not> (deep \<and> length children \<noteq> 0)"
  shows "copyContentNode ctx ident target position deep children w =
     (case ContentNode_copy ctx ident target position deep w of
        (Inl e, w1) \<Rightarrow> (Inl e, w1)
      | (Inr nodes, w1) \<Rightarrow>
          (case promiseChunk nodes 10 (copy_chunk ctx)
                  (commit_ADD_CONTENTNODES ctx nodes w1) of
             (Inl e, w2) \<Rightarrow> (Inl e, w2)
           | (Inr _, w2) \<Rightarrow>
               (if length children \<noteq> 0
                then (case copy_children ctx nodes children w2 of
                        (rs, w3) \<Rightarrow>
                          (bindE (all_or_first_rejection rs)
                             (\<lambda>results. Inr (nodes @ hd results)), w3))
                else (Inr nodes, w2))))"
  using assms
  by (simp only: copyContentNode.simps [of ctx ident target position deep children w]
      if_not_P if_False)

lemma bounded_copy:
  "ctx = recording r \<Longrightarrow> dispatches_bounded w \<Longrightarrow>
     dispatches_bounded (snd (copyContentNode ctx ident target position deep children w))"
  "ctx = recording r \<Longrightarrow> dispatches_bounded w \<Longrightarrow>
     dispatches_bounded (snd (copy_children ctx nodes children w))"
proof (induction ctx ident target position deep children w and ctx nodes children w
    rule: copyContentNode_copy_children.induct)
  case (1 ctx ident target position deep children w)
  show ?case
  proof (cases "deep \<and> length children \<noteq> 0")
    case True
    with "1.prems" show ?thesis
      by (simp add: copyContentNode.simps)
  next
    case False
    obtain x w1 where c: "ContentNode_copy ctx ident target position deep w = (x, w1)"
      by (cases "ContentNode_copy ctx ident target position deep w")
    with "1.prems" have w1: "dispatches_bounded w1"
      by (auto simp: recording_def bounded_append dispatches_bounded_def)
    show ?thesis
    proof (cases x)
      case (Inl e)
      with c w1 show ?thesis
        by (simp add: copyContentNode_unfold [OF False])
    next
      case (Inr nodes)
      let ?w1' = "commit_ADD_CONTENTNODES ctx nodes w1"
      from "1.prems" w1 have w1': "dispatches_bounded ?w1'"
        by (simp add: recording_def bounded_append dispatches_bounded_def)
      obtain y w2 where p: "promiseChunk nodes 10 (copy_chunk ctx) ?w1' = (y, w2)"
        by (cases "promiseChunk nodes 10 (copy_chunk ctx) ?w1'")
      with bounded_copy_chunks [where r = r and nodes = nodes, OF w1' [unfolded "1.prems"(1)]]
        "1.prems"(1)
      have w2: "dispatches_bounded w2" by simp
      show ?thesis
      proof (cases y)
        case (Inl e)
        with c Inr p w2 show ?thesis
          by (simp add: copyContentNode_unfold [OF False])
      next
        case yr: (Inr u)
        show ?thesis
        proof (cases "length children \<noteq> 0")
          case True
          from "1.IH" [OF False c [symmetric] Inr p [symmetric] yr True "1.prems"(1) w2]
          have "dispatches_bounded (snd (copy_children ctx nodes children w2))" .
          with c Inr p yr True show ?thesis
            by (auto simp add: copyContentNode_unfold [OF False] split: prod.splits)
        next
          case F2: False
          show ?thesis
            unfolding copyContentNode_unfold [OF False]
            using c Inr p yr w2 F2 by simp
        qed
      qed
    qed
  qed
next
  case (2 ctx nodes w)
  then show ?case by simp
next
  case (3 ctx nodes child_id child_children children w)
  show ?case
  proof (cases nodes)
    case Nil
    have e: "(Inl (TypeError ''Cannot read property id of undefined''), w) =
        (case nodes of
           [] \<Rightarrow> (Inl (TypeError ''Cannot read property id of undefined''), w)
         | n0 # x \<Rightarrow>
             copyContentNode ctx child_id (id' n0) LAST_CHILD False child_children w)"
      using Nil by simp
    from "3.IH"(2) [OF e "3.prems"] Nil show ?thesis
      by (auto split: prod.splits)
  next
    case (Cons n0 ns)
    obtain x w' where x: "copyContentNode ctx child_id (id' n0) LAST_CHILD False child_children w = (x, w')"
      by (cases "copyContentNode ctx child_id (id' n0) LAST_CHILD False child_children w")
    from "3.IH"(1) [OF Cons "3.prems"] x have w': "dispatches_bounded w'"
      by simp
    have e: "(x, w') =
        (case nodes of
           [] \<Rightarrow> (Inl (TypeError ''Cannot read property id of undefined''), w)
         | n0 # x \<Rightarrow>
             copyContentNode ctx child_id (id' n0) LAST_CHILD False child_children w)"
      using Cons x by simp
    from "3.IH"(2) [OF e "3.prems"(1) w'] Cons x show ?thesis
      by (auto split: prod.splits)
  qed
qed

lemma bounded_copyContentNodes:
  assumes "dispatches_bounded t"
  shows "dispatches_bounded (snd (copyContentNodes (recording r) id__in target deep t))"
  unfolding copyContentNodes_def Let_def
proof (intro bounded_promiseChunk assms)
  fix c t
  assume "dispatches_bounded t"
  then have "dispatches_bounded (snd (run_all
      (map (\<lambda>ident. copyContentNode (recording r) ident target LAST_CHILD deep []) c) t))"
    by (rule bounded_run_all [rotated]) (auto intro: bounded_copy(1) [OF refl])
  then show "dispatches_bounded (snd (Promise_all
      (map (\<lambda>ident. copyContentNode (recording r) ident target LAST_CHILD deep []) c) t))"
    by (auto simp add: Promise_all_def split: prod.splits)
qed

text \<open>
  C9. \<^verbatim>\<open>copyContentNode\<close> with \<^verbatim>\<open>deep\<close> and a non-empty \<^verbatim>\<open>children\<close> list throws
  \<^verbatim>\<open>TypeError('Cannot use deep and specify children')\<close> and leaves the world as it was,
  whatever the collaborators would do: none of them is called. In the recording world no
  call is recorded.
\<close>

theorem copyContentNode_deep_with_children_throws:
  assumes "deep" and "length children \<noteq> 0"
  shows "copyContentNode ctx ident target position deep children w =
           (Inl (TypeError ''Cannot use deep and specify children''), w) \<and>
         snd (copyContentNode (recording r) ident target position deep children t) = t"
  using assms by (simp add: copyContentNode.simps)

theorem copyContentNode_deep_with_children_throws_witness:
  "length [Child ''c1'' []] \<noteq> 0 \<and>
   copyContentNode (recording example_responses) ''n1'' ''t1'' LAST_CHILD True [Child ''c1'' []] [] =
     (Inl (TypeError ''Cannot use deep and specify children''), []) \<and>
   snd (copyContentNode (recording example_responses) ''n1'' ''t1'' LAST_CHILD True
          [Child ''c1'' []] []) = []"
  using copyContentNode_deep_with_children_throws
    [of True "[Child ''c1'' []]" "recording example_responses" "''n1''" "''t1''" LAST_CHILD "[]"
      example_responses "[]"]
  by simp


lemma nodeMap_reduce_ok:
  assumes "distinct (map fst m @ map source_id ns)"
    and "\<forall>n \<in> set ns. source_id n \<notin> set Object_prototype_members"
  shows "\<exists>m'. nodeMap_reduce m ns = Inr m'"
  using assms
proof (induction ns arbitrary: m)
  case Nil
  then show ?case by simp
next
  case (Cons n ns)
  from Cons.prems have "\<not> has_property m (source_id n)"
    by (auto simp: has_property_def map_of_eq_None_iff image_iff)
  moreover from Cons.prems have "\<exists>m'. nodeMap_reduce (m @ [(source_id n, n)]) ns = Inr m'"
    by (intro Cons.IH) auto
  ultimately show ?case by simp
qed

lemma nodeMap_reduce_keys:
  "nodeMap_reduce m ns = Inr m' \<Longrightarrow> map fst m' = map fst m @ map source_id ns"
  by (induction ns arbitrary: m) (auto split: if_splits)

lemma copy_chunk_recording:
  "copy_chunk (recording r) g t =
     (case nodeMap_reduce [] g of
        Inl e \<Rightarrow> (Inl e, t)
      | Inr m \<Rightarrow>
          (all_or_first_rejection
             [items_response r
                (t @ [Dispatch_copyAssessmentItems (own_keys_order (map source_id g))]),
              files_response r (t @ dispatches_of g)],
           t @ dispatches_of g))"
proof (cases "nodeMap_reduce [] g")
  case (Inl e)
  then show ?thesis by (simp add: copy_chunk_def)
next
  case (Inr m)
  from nodeMap_reduce_keys [OF this] have "map fst m = map source_id g"
    by simp
  with Inr show ?thesis
    by (simp add: copy_chunk_def Promise_all_def recording_def dispatches_of_def Let_def)
qed

lemma copy_chunk_trace:
  "snd (copy_chunk (recording r) g t) =
     (case nodeMap_reduce [] g of Inl e \<Rightarrow> t | Inr m \<Rightarrow> t @ dispatches_of g)"
  by (simp add: copy_chunk_recording split: sum.splits)

lemma copy_chunk_resolved:
  "copy_chunk (recording r) g t = (Inr x, t') \<Longrightarrow> t' = t @ dispatches_of g"
  by (auto simp: copy_chunk_recording split: sum.splits)

lemma copy_chunk_ok:
  assumes "\<forall>u. items_response r u = Inr ()" and "\<forall>u. files_response r u = Inr ()"
    and "nodeMap_reduce [] g = Inr m"
  shows "copy_chunk (recording r) g t = (Inr [(), ()], t @ dispatches_of g)"
  using assms by (simp add: copy_chunk_recording bindE_def)

lemma promiseChunk_reduce_trace:
  "\<exists>m \<le> length gs.
     snd (promiseChunk_reduce (copy_chunk (recording r)) gs res t) =
       t @ concat (map dispatches_of (take m gs)) \<and>
     (\<forall>x. fst (promiseChunk_reduce (copy_chunk (recording r)) gs res t) = Inr x \<longrightarrow>
        m = length gs)"
proof (induction gs arbitrary: res t)
  case Nil
  then show ?case by simp
next
  case (Cons g gs)
  obtain x t1 where c: "copy_chunk (recording r) g t = (x, t1)"
    by (cases "copy_chunk (recording r) g t")
  show ?case
  proof (cases x)
    case (Inl e)
    from c have "t1 = t \<or> t1 = t @ dispatches_of g"
      by (auto simp: copy_chunk_recording split: sum.splits)
    then show ?thesis
    proof
      assume "t1 = t"
      with c Inl show ?thesis
        by (intro exI [of _ 0]) simp
    next
      assume "t1 = t @ dispatches_of g"
      with c Inl show ?thesis
        by (intro exI [of _ 1]) simp
    qed
  next
    case (Inr y)
    with c have t1: "t1 = t @ dispatches_of g"
      by (simp add: copy_chunk_resolved)
    from Cons.IH [of "res @ y" t1] obtain m where m: "m \<le> length gs"
      "snd (promiseChunk_reduce (copy_chunk (recording r)) gs (res @ y) t1) =
         t1 @ concat (map dispatches_of (take m gs))"
      "\<forall>x. fst (promiseChunk_reduce (copy_chunk (recording r)) gs (res @ y) t1) = Inr x \<longrightarrow>
         m = length gs"
      by blast
    with c Inr t1 show ?thesis
      by (intro exI [of _ "Suc m"]) simp
  qed
qed

lemma promiseChunk_reduce_ok:
  assumes "\<forall>u. items_response r u = Inr ()" and "\<forall>u. files_response r u = Inr ()"
    and "\<forall>g \<in> set gs. \<exists>m. nodeMap_reduce [] g = Inr m"
  shows "\<exists>x. promiseChunk_reduce (copy_chunk (recording r)) gs res t =
           (Inr x, t @ concat (map dispatches_of gs))"
  using assms(3)
proof (induction gs arbitrary: res t)
  case Nil
  then show ?case by simp
next
  case (Cons g gs)
  then obtain m where "nodeMap_reduce [] g = Inr m"
    by auto
  from copy_chunk_ok [OF assms(1,2) this]
  have c: "copy_chunk (recording r) g t = (Inr [(), ()], t @ dispatches_of g)" .
  from Cons.IH [of "res @ [(), ()]" "t @ dispatches_of g"] Cons.prems
  obtain x where "promiseChunk_reduce (copy_chunk (recording r)) gs (res @ [(), ()])
      (t @ dispatches_of g) = (Inr x, (t @ dispatches_of g) @ concat (map dispatches_of gs))"
    by auto
  with c show ?case by simp
qed

lemma copyContentNode_leaf:
  "copyContentNode ctx ident target position deep [] w =
     (case ContentNode_copy ctx ident target position deep w of
        (Inl e, w1) \<Rightarrow> (Inl e, w1)
      | (Inr nodes, w1) \<Rightarrow>
          (case (if nodes = [] then (Inr [], commit_ADD_CONTENTNODES ctx nodes w1)
                 else promiseChunk_reduce (copy_chunk ctx) (chunk nodes 10) []
                        (commit_ADD_CONTENTNODES ctx nodes w1)) of
             (Inl e, w2) \<Rightarrow> (Inl e, w2)
           | (Inr x, w2) \<Rightarrow> (Inr nodes, w2)))"
proof -
  have "\<not> (deep \<and> length ([] :: child list) \<noteq> 0)"
    by simp
  from copyContentNode_unfold [OF this, of ctx ident target position w] show ?thesis
    by (simp add: promiseChunk_def split: prod.splits sum.splits)
qed

lemma copyContentNode_leaf_recording:
  "copyContentNode (recording r) ident target position deep [] t =
     (case copy_response r (t @ [Call_copy ident target position deep]) of
        Inl e \<Rightarrow> (Inl e, t @ [Call_copy ident target position deep])
      | Inr nodes \<Rightarrow>
          (case promiseChunk_reduce (copy_chunk (recording r)) (chunk nodes 10) []
                  (t @ [Call_copy ident target position deep, Commit_ADD_CONTENTNODES nodes]) of
             (Inl e, t2) \<Rightarrow> (Inl e, t2)
           | (Inr x, t2) \<Rightarrow> (Inr nodes, t2)))"
  unfolding copyContentNode_leaf
  by (simp add: recording_def chunk_Nil split: sum.splits prod.splits)

lemma copyContentNode_leaf_resolved:
  assumes "copyContentNode (recording r) ident target position deep [] t = (Inr ns, t')"
  shows "copy_response r (t @ [Call_copy ident target position deep]) = Inr ns \<and>
         t' = t @ [Call_copy ident target position deep, Commit_ADD_CONTENTNODES ns] @
                concat (map dispatches_of (chunk ns 10))"
proof -
  let ?c = "Call_copy ident target position deep"
  from assms obtain nodes where n: "copy_response r (t @ [?c]) = Inr nodes"
    by (cases "copy_response r (t @ [?c])") (auto simp: copyContentNode_leaf_recording)
  let ?t1 = "t @ [?c, Commit_ADD_CONTENTNODES nodes]"
  obtain y t2 where p: "promiseChunk_reduce (copy_chunk (recording r)) (chunk nodes 10) [] ?t1 = (y, t2)"
    by (cases "promiseChunk_reduce (copy_chunk (recording r)) (chunk nodes 10) [] ?t1")
  with assms n obtain x where y: "y = Inr x" and ns: "ns = nodes" and t': "t' = t2"
    by (cases y) (auto simp: copyContentNode_leaf_recording)
  from promiseChunk_reduce_trace [of "chunk nodes 10" r "[]" ?t1] p y
  have "t2 = ?t1 @ concat (map dispatches_of (chunk nodes 10))"
    by auto
  with n ns t' show ?thesis by simp
qed

lemma copyContentNode_leaf_ok:
  assumes "copy_response r (t @ [Call_copy ident target position deep]) = Inr nodes"
    and "\<forall>u. items_response r u = Inr ()" and "\<forall>u. files_response r u = Inr ()"
    and "distinct (map source_id nodes)"
    and "\<forall>n \<in> set nodes. source_id n \<notin> set Object_prototype_members"
  shows "copyContentNode (recording r) ident target position deep [] t =
    (Inr nodes, t @ [Call_copy ident target position deep, Commit_ADD_CONTENTNODES nodes] @
        concat (map dispatches_of (chunk nodes 10)))"
proof -
  have "\<exists>m. nodeMap_reduce [] g = Inr m" if "g \<in> set (chunk nodes 10)" for g
  proof (rule nodeMap_reduce_ok)
    from chunk_distinct [OF that assms(4)] show "distinct (map fst [] @ map source_id g)"
      by simp
    from chunk_subset [OF that] assms(5)
    show "\<forall>n \<in> set g. source_id n \<notin> set Object_prototype_members"
      by auto
  qed
  then have "\<forall>g \<in> set (chunk nodes 10). \<exists>m. nodeMap_reduce [] g = Inr m"
    by blast
  from promiseChunk_reduce_ok [OF assms(2,3) this, of "[]"
      "t @ [Call_copy ident target position deep, Commit_ADD_CONTENTNODES nodes]"]
  obtain x where "promiseChunk_reduce (copy_chunk (recording r)) (chunk nodes 10) []
      (t @ [Call_copy ident target position deep, Commit_ADD_CONTENTNODES nodes]) =
      (Inr x, (t @ [Call_copy ident target position deep, Commit_ADD_CONTENTNODES nodes]) @
         concat (map dispatches_of (chunk nodes 10)))"
    by blast
  with assms(1) show ?thesis
    by (simp add: copyContentNode_leaf_recording)
qed

lemma copy_calls_append: "copy_calls (t @ t') = copy_calls t @ copy_calls t'"
  by (simp add: copy_calls_def)

lemma copy_calls_dispatches: "copy_calls (concat (map dispatches_of gs)) = []"
  by (induction gs) (simp_all add: copy_calls_def dispatches_of_def)

lemma copy_calls_leaf:
  "copy_calls (snd (copyContentNode (recording r) ident target position deep [] t)) =
     copy_calls t @ [(ident, target, position, deep)]"
proof (cases "copy_response r (t @ [Call_copy ident target position deep])")
  case (Inl e)
  then show ?thesis
    by (simp add: copyContentNode_leaf_recording copy_calls_append) (simp add: copy_calls_def)
next
  case (Inr nodes)
  let ?t1 = "t @ [Call_copy ident target position deep, Commit_ADD_CONTENTNODES nodes]"
  from promiseChunk_reduce_trace [of "chunk nodes 10" r "[]" ?t1] obtain m where
    "snd (promiseChunk_reduce (copy_chunk (recording r)) (chunk nodes 10) [] ?t1) =
       ?t1 @ concat (map dispatches_of (take m (chunk nodes 10)))"
    by blast
  then have "copy_calls (snd (promiseChunk_reduce (copy_chunk (recording r)) (chunk nodes 10) [] ?t1)) =
      copy_calls ?t1"
    by (simp only: copy_calls_append copy_calls_dispatches append_Nil2)
  moreover have "copy_calls ?t1 = copy_calls t @ [(ident, target, position, deep)]"
    by (simp add: copy_calls_append) (simp add: copy_calls_def)
  ultimately have calls: "copy_calls
      (snd (promiseChunk_reduce (copy_chunk (recording r)) (chunk nodes 10) [] ?t1)) =
      copy_calls t @ [(ident, target, position, deep)]"
    by simp
  obtain y t2 where p:
    "promiseChunk_reduce (copy_chunk (recording r)) (chunk nodes 10) [] ?t1 = (y, t2)"
    by (cases "promiseChunk_reduce (copy_chunk (recording r)) (chunk nodes 10) [] ?t1")
  with calls have "copy_calls t2 = copy_calls t @ [(ident, target, position, deep)]"
    by simp
  with Inr p show ?thesis
    by (cases y) (simp_all add: copyContentNode_leaf_recording)
qed

lemma copy_calls_run_all:
  "copy_calls (snd (run_all
      (map (\<lambda>ident. copyContentNode (recording r) ident target position deep []) ids) t)) =
     copy_calls t @ map (\<lambda>ident. (ident, target, position, deep)) ids"
proof (induction ids arbitrary: t)
  case Nil
  then show ?case by simp
next
  case (Cons i ids)
  obtain x t1 where c: "copyContentNode (recording r) i target position deep [] t = (x, t1)"
    by (cases "copyContentNode (recording r) i target position deep [] t")
  with copy_calls_leaf [of r i target position deep t]
  have t1: "copy_calls t1 = copy_calls t @ [(i, target, position, deep)]"
    by simp
  obtain rs t2 where rest: "run_all
      (map (\<lambda>ident. copyContentNode (recording r) ident target position deep []) ids) t1 =
      (rs, t2)"
    by (cases "run_all
      (map (\<lambda>ident. copyContentNode (recording r) ident target position deep []) ids) t1")
  with Cons.IH [of t1] t1
  have "copy_calls t2 =
      copy_calls t @ map (\<lambda>ident. (ident, target, position, deep)) (i # ids)"
    by simp
  with c rest show ?case
    by simp
qed

lemma copy_calls_groups:
  fixes r target position deep
  defines "cb \<equiv> (\<lambda>idChunk. Promise_all
      (map (\<lambda>ident. copyContentNode (recording r) ident target position deep []) idChunk))"
  shows "\<exists>m \<le> length gs.
     copy_calls (snd (promiseChunk_reduce cb gs res t)) =
       copy_calls t @ map (\<lambda>ident. (ident, target, position, deep)) (concat (take m gs)) \<and>
     (gs \<noteq> [] \<longrightarrow> 0 < m) \<and>
     (\<forall>x. fst (promiseChunk_reduce cb gs res t) = Inr x \<longrightarrow> m = length gs)"
proof (induction gs arbitrary: res t)
  case Nil
  then show ?case by simp
next
  case (Cons g gs)
  obtain x t1 where c: "cb g t = (x, t1)"
    by (cases "cb g t")
  then have t1: "copy_calls t1 = copy_calls t @ map (\<lambda>ident. (ident, target, position, deep)) g"
    using copy_calls_run_all [of r target position deep g t]
    by (auto simp: cb_def Promise_all_def split: prod.splits)
  show ?case
  proof (cases x)
    case (Inl e)
    with c t1 show ?thesis
      by (intro exI [of _ 1]) simp
  next
    case (Inr y)
    from Cons.IH [of "res @ y" t1] obtain m where m: "m \<le> length gs"
      "copy_calls (snd (promiseChunk_reduce cb gs (res @ y) t1)) =
         copy_calls t1 @ map (\<lambda>ident. (ident, target, position, deep)) (concat (take m gs))"
      "\<forall>x. fst (promiseChunk_reduce cb gs (res @ y) t1) = Inr x \<longrightarrow> m = length gs"
      by blast
    with c Inr t1 show ?thesis
      by (intro exI [of _ "Suc m"]) simp
  qed
qed

lemma copy_calls_copyContentNodes:
  "\<exists>m \<le> length (chunk id__in (if deep then 1 else 10)).
     copy_calls (snd (copyContentNodes (recording r) id__in target deep t)) =
       copy_calls t @ map (\<lambda>ident. (ident, target, LAST_CHILD, deep))
         (concat (take m (chunk id__in (if deep then 1 else 10)))) \<and>
     (id__in \<noteq> [] \<longrightarrow> 0 < m) \<and>
     (\<forall>x. fst (copyContentNodes (recording r) id__in target deep t) = Inr x \<longrightarrow>
        m = length (chunk id__in (if deep then 1 else 10)))"
proof (cases "id__in = []")
  case True
  then show ?thesis
    by (simp add: copyContentNodes_def promiseChunk_def chunk_Nil)
next
  case False
  then have ne: "chunk id__in (if deep then 1 else 10) \<noteq> []"
    by (simp add: chunk.simps [of id__in])
  from copy_calls_groups [of "chunk id__in (if deep then 1 else 10)" r target LAST_CHILD deep "[]" t]
    False ne
  show ?thesis
    by (simp add: copyContentNodes_def promiseChunk_def Let_def)
qed


lemma promiseChunk_as_reduce:
  "promiseChunk things n callback w = promiseChunk_reduce callback (chunk things n) [] w"
  by (simp add: promiseChunk_def chunk_Nil)

lemma nodeMap_reduce_result:
  "nodeMap_reduce m ns = Inr m' \<Longrightarrow> m' = m @ map (\<lambda>n. (source_id n, n)) ns"
proof (induction ns arbitrary: m)
  case Nil
  then show ?case by simp
next
  case (Cons n ns)
  from Cons.prems have "nodeMap_reduce (m @ [(source_id n, n)]) ns = Inr m'"
    by (auto split: if_splits)
  from Cons.IH [OF this] show ?case
    by simp
qed

lemma nodeMap_reduce_error:
  "nodeMap_reduce m ns = Inl e \<Longrightarrow> e = Error ''Not implemented''"
  by (induction ns arbitrary: m) (auto split: if_splits)

lemma nodeMap_reduce_resolved:
  "nodeMap_reduce m ns = Inr m' \<Longrightarrow>
     distinct (map source_id ns) \<and>
     (\<forall>n \<in> set ns. source_id n \<notin> fst ` set m \<and> source_id n \<notin> set Object_prototype_members)"
proof (induction ns arbitrary: m)
  case Nil
  then show ?case by simp
next
  case (Cons n ns)
  from Cons.prems have n: "\<not> has_property m (source_id n)"
    and rest: "nodeMap_reduce (m @ [(source_id n, n)]) ns = Inr m'"
    by (auto split: if_splits)
  from n have "source_id n \<notin> fst ` set m" "source_id n \<notin> set Object_prototype_members"
    by (auto simp: has_property_def map_of_eq_None_iff)
  with Cons.IH [OF rest] show ?case
    by (auto simp: image_iff)
qed

lemma nodeMap_reduce_cases:
  "nodeMap_reduce [] g =
     (if distinct (map source_id g) \<and>
         (\<forall>n \<in> set g. source_id n \<notin> set Object_prototype_members)
      then Inr (map (\<lambda>n. (source_id n, n)) g)
      else Inl (Error ''Not implemented''))"
proof (cases "nodeMap_reduce [] g")
  case (Inl e)
  with nodeMap_reduce_ok [of "[]" g] nodeMap_reduce_error [OF Inl] show ?thesis
    by auto
next
  case (Inr m)
  with nodeMap_reduce_resolved [OF Inr] nodeMap_reduce_result [OF Inr] show ?thesis
    by simp
qed

lemma copy_chunk_cases:
  "copy_chunk ctx nodeChunk w =
     (if distinct (map source_id nodeChunk) \<and>
         (\<forall>n \<in> set nodeChunk. source_id n \<notin> set Object_prototype_members)
      then Promise_all
             [dispatch_copyAssessmentItems ctx (own_keys_order (map source_id nodeChunk))
                (map (\<lambda>n. (source_id n, n)) nodeChunk),
              dispatch_copyFiles ctx (own_keys_order (map source_id nodeChunk))
                (map (\<lambda>n. (source_id n, n)) nodeChunk)] w
      else (Inl (Error ''Not implemented''), w))"
  by (simp add: copy_chunk_def nodeMap_reduce_cases comp_def Let_def)

lemma copy_chunk_trace_cases:
  "snd (copy_chunk (recording r) nodeChunk t) =
     (if distinct (map source_id nodeChunk) \<and>
         (\<forall>n \<in> set nodeChunk. source_id n \<notin> set Object_prototype_members)
      then t @ dispatches_of nodeChunk else t)"
  by (simp add: copy_chunk_trace nodeMap_reduce_cases)

lemma set_own_keys_order: "set (own_keys_order ks) = set ks"
  by (auto simp: own_keys_order_def)

lemma own_keys_order_plain:
  "\<forall>k \<in> set ks. \<not> array_index k \<Longrightarrow> own_keys_order ks = ks"
  by (simp add: own_keys_order_def filter_empty_conv [THEN iffD2] filter_id_conv [THEN iffD2])

lemma dispatches_of_ids:
  "\<exists>ks. dispatches_of nodeChunk = [Dispatch_copyAssessmentItems ks, Dispatch_copyFiles ks] \<and>
     length ks = length nodeChunk \<and> set ks = source_id ` set nodeChunk \<and>
     ((\<forall>n \<in> set nodeChunk. \<not> array_index (source_id n)) \<longrightarrow> ks = map source_id nodeChunk)"
  by (intro exI [of _ "own_keys_order (map source_id nodeChunk)"])
     (simp add: dispatches_of_def length_own_keys_order set_own_keys_order own_keys_order_plain)

lemma copyContentNode_structure:
  assumes "\<not> (deep \<and> length children \<noteq> 0)"
  shows "copyContentNode ctx ident target position deep children w =
     (case ContentNode_copy ctx ident target position deep w of
        (Inl e, w1) \<Rightarrow> (Inl e, w1)
      | (Inr nodes, w1) \<Rightarrow>
          (case promiseChunk_reduce (copy_chunk ctx) (chunk nodes 10) []
                  (commit_ADD_CONTENTNODES ctx nodes w1) of
             (Inl e, w2) \<Rightarrow> (Inl e, w2)
           | (Inr x, w2) \<Rightarrow>
               (if length children \<noteq> 0
                then (case copy_children ctx nodes children w2 of
                        (rs, w3) \<Rightarrow>
                          (bindE (all_or_first_rejection rs)
                             (\<lambda>results. Inr (nodes @ hd results)), w3))
                else (Inr nodes, w2))))"
  unfolding copyContentNode_unfold [OF assms] promiseChunk_as_reduce ..

lemma trace_grows:
  "ctx = recording r \<Longrightarrow>
     \<exists>rest. snd (copyContentNode ctx ident target position deep children w) = w @ rest"
  "ctx = recording r \<Longrightarrow>
     \<exists>rest. snd (copy_children ctx nodes children w) = w @ rest"
proof (induction ctx ident target position deep children w and ctx nodes children w
    rule: copyContentNode_copy_children.induct)
  case (1 ctx ident target position deep children w)
  show ?case
  proof (cases "deep \<and> length children \<noteq> 0")
    case True
    then show ?thesis
      by (simp add: copyContentNode.simps)
  next
    case False
    obtain x w1 where c: "ContentNode_copy ctx ident target position deep w = (x, w1)"
      by (cases "ContentNode_copy ctx ident target position deep w")
    with "1.prems" have w1: "w1 = w @ [Call_copy ident target position deep]"
      by (auto simp: recording_def)
    show ?thesis
    proof (cases x)
      case (Inl e)
      with c w1 show ?thesis
        by (simp add: copyContentNode_unfold [OF False])
    next
      case (Inr nodes)
      let ?w1' = "commit_ADD_CONTENTNODES ctx nodes w1"
      from "1.prems" w1 have w1': "?w1' = w @ [Call_copy ident target position deep,
          Commit_ADD_CONTENTNODES nodes]"
        by (simp add: recording_def)
      obtain y w2 where p: "promiseChunk nodes 10 (copy_chunk ctx) ?w1' = (y, w2)"
        by (cases "promiseChunk nodes 10 (copy_chunk ctx) ?w1'")
      from promiseChunk_reduce_trace [of "chunk nodes 10" r "[]" ?w1'] p "1.prems"
      obtain m where "w2 = ?w1' @ concat (map dispatches_of (take m (chunk nodes 10)))"
        by (auto simp: promiseChunk_as_reduce)
      with w1' have w2: "\<exists>rest. w2 = w @ rest"
        by simp
      show ?thesis
      proof (cases y)
        case (Inl e)
        with c Inr p w2 show ?thesis
          by (simp add: copyContentNode_unfold [OF False])
      next
        case yr: (Inr u)
        show ?thesis
        proof (cases "length children \<noteq> 0")
          case True
          from "1.IH" [OF False c [symmetric] Inr p [symmetric] yr True "1.prems"]
          obtain rest where "snd (copy_children ctx nodes children w2) = w2 @ rest"
            by blast
          with w2 have "\<exists>rest. snd (copy_children ctx nodes children w2) = w @ rest"
            by auto
          with c Inr p yr True show ?thesis
            by (auto simp add: copyContentNode_unfold [OF False] split: prod.splits)
        next
          case F2: False
          show ?thesis
            unfolding copyContentNode_unfold [OF False]
            using c Inr p yr w2 F2 by simp
        qed
      qed
    qed
  qed
next
  case (2 ctx nodes w)
  then show ?case by simp
next
  case (3 ctx nodes child_id child_children children w)
  show ?case
  proof (cases nodes)
    case Nil
    have e: "(Inl (TypeError ''Cannot read property id of undefined''), w) =
        (case nodes of
           [] \<Rightarrow> (Inl (TypeError ''Cannot read property id of undefined''), w)
         | n0 # x \<Rightarrow>
             copyContentNode ctx child_id (id' n0) LAST_CHILD False child_children w)"
      using Nil by simp
    from "3.IH"(2) [OF e "3.prems"] Nil show ?thesis
      by (auto split: prod.splits)
  next
    case (Cons n0 ns)
    obtain x w' where x: "copyContentNode ctx child_id (id' n0) LAST_CHILD False child_children w = (x, w')"
      by (cases "copyContentNode ctx child_id (id' n0) LAST_CHILD False child_children w")
    from "3.IH"(1) [OF Cons "3.prems"] x obtain r1 where w': "w' = w @ r1"
      by auto
    have e: "(x, w') =
        (case nodes of
           [] \<Rightarrow> (Inl (TypeError ''Cannot read property id of undefined''), w)
         | n0 # x \<Rightarrow>
             copyContentNode ctx child_id (id' n0) LAST_CHILD False child_children w)"
      using Cons x by simp
    from "3.IH"(2) [OF e "3.prems"(1)] obtain r2 where
      "snd (copy_children ctx nodes children w') = w' @ r2"
      by blast
    with w' Cons x show ?thesis
      by (auto split: prod.splits)
  qed
qed

lemma copyContentNode_groups_first:
  assumes "\<not> (deep \<and> length children \<noteq> 0)"
    and "copy_response r (t @ [Call_copy ident target position deep]) = Inr nodes"
  shows "\<exists>m rest. m \<le> length (chunk nodes 10) \<and>
     snd (copyContentNode (recording r) ident target position deep children t) =
       t @ [Call_copy ident target position deep, Commit_ADD_CONTENTNODES nodes] @
         concat (map dispatches_of (take m (chunk nodes 10))) @ rest \<and>
     (m < length (chunk nodes 10) \<or> length children = 0 \<longrightarrow> rest = [])"
proof -
  let ?t1 = "t @ [Call_copy ident target position deep, Commit_ADD_CONTENTNODES nodes]"
  obtain y t2 where p:
    "promiseChunk_reduce (copy_chunk (recording r)) (chunk nodes 10) [] ?t1 = (y, t2)"
    by (cases "promiseChunk_reduce (copy_chunk (recording r)) (chunk nodes 10) [] ?t1")
  from promiseChunk_reduce_trace [of "chunk nodes 10" r "[]" ?t1] p obtain m where
    m: "m \<le> length (chunk nodes 10)"
      "t2 = ?t1 @ concat (map dispatches_of (take m (chunk nodes 10)))"
      "\<forall>x. y = Inr x \<longrightarrow> m = length (chunk nodes 10)"
    by auto
  have start: "ContentNode_copy (recording r) ident target position deep t =
      (Inr nodes, t @ [Call_copy ident target position deep])"
    using assms(2) by (simp add: recording_def)
  have commit: "commit_ADD_CONTENTNODES (recording r) nodes
      (t @ [Call_copy ident target position deep]) = ?t1"
    by (simp add: recording_def)
  show ?thesis
  proof (cases y)
    case (Inl e)
    have "snd (copyContentNode (recording r) ident target position deep children t) = t2"
      unfolding copyContentNode_structure [OF assms(1)]
      using Inl start commit p by simp
    with m(1,2) show ?thesis
      by (intro exI [of _ m] exI [of _ "[]"]) simp
  next
    case (Inr x)
    with m(3) have full: "m = length (chunk nodes 10)"
      by simp
    show ?thesis
    proof (cases "length children = 0")
      case True
      have "snd (copyContentNode (recording r) ident target position deep children t) = t2"
        unfolding copyContentNode_structure [OF assms(1)]
        using True Inr start commit p by simp
      with m(1,2) show ?thesis
        by (intro exI [of _ m] exI [of _ "[]"]) simp
    next
      case False
      from trace_grows(2) [OF refl, of r nodes children t2] obtain rest where
        "snd (copy_children (recording r) nodes children t2) = t2 @ rest"
        by blast
      then have "snd (copyContentNode (recording r) ident target position deep children t) = t2 @ rest"
        unfolding copyContentNode_structure [OF assms(1)]
        using False Inr start commit p by (auto split: prod.splits)
      with m(1,2) full False show ?thesis
        by (intro exI [of _ m] exI [of _ rest]) simp
    qed
  qed
qed


text \<open>
  C5. \<^verbatim>\<open>copyContentNodes\<close> hands \<^verbatim>\<open>id__in\<close> to its callback in the consecutive groups of
  \<^verbatim>\<open>chunk\<close>, with group size 1 when \<^verbatim>\<open>deep\<close> and 10 otherwise: every group but the last
  has exactly that many ids, the last has the rest, and the groups concatenate to
  \<^verbatim>\<open>id__in\<close>; with \<^verbatim>\<open>deep\<close> every id is a group of its own. Each id of a group that is
  started is copied by one call of \<^verbatim>\<open>ContentNode.copy\<close> with the target, \<^verbatim>\<open>LAST_CHILD\<close> and
  \<^verbatim>\<open>deep\<close>; the calls are made in the order of \<^verbatim>\<open>id__in\<close>, the first group is always
  started, and when the action resolves every id has been copied.

  Within \<^verbatim>\<open>copyContentNode\<close>, when it does not throw, the nodes that \<^verbatim>\<open>ContentNode.copy\<close>
  returns are committed and then handed to the callback in the consecutive groups of
  \<^verbatim>\<open>chunk\<close> with size 10, before any child is copied. For a group whose source ids are
  distinct and not names of members of \<^verbatim>\<open>Object.prototype\<close> the callback dispatches
  \<^verbatim>\<open>copyAssessmentItems\<close> and then \<^verbatim>\<open>copyFiles\<close>, both with the source ids of that group
  (in the order of the nodes unless some are array indices); for any other group it throws
  and dispatches nothing. So the trace of a copy whose \<^verbatim>\<open>ContentNode.copy\<close> resolves is
  the call, the commit and then these two dispatches for the first groups of ten, for all
  of them before anything else follows; a copy without children that resolves has recorded
  exactly the call, the commit and the two dispatches of every group; and it does resolve
  when the dispatches do and the source ids are distinct and not such names. Every
  \<^verbatim>\<open>copyAssessmentItems\<close> and \<^verbatim>\<open>copyFiles\<close> dispatch of \<^verbatim>\<open>copyContentNode\<close> (also for
  children) and of \<^verbatim>\<open>copyContentNodes\<close> carries at most 10 ids.
\<close>

theorem copy_chunk_sizes:
  "copyContentNodes ctx id__in target deep w =
     (if id__in = [] then (Inr [], w)
      else promiseChunk_reduce
             (\<lambda>idChunk. Promise_all
                (map (\<lambda>ident. copyContentNode ctx ident target LAST_CHILD deep []) idChunk))
             (chunk id__in (if deep then 1 else 10)) [] w) \<and>
   (\<forall>idChunk \<in> set (chunk id__in (if deep then 1 else 10)).
      1 \<le> length idChunk \<and> length idChunk \<le> (if deep then 1 else 10)) \<and>
   concat (chunk id__in (if deep then 1 else 10)) = id__in \<and>
   (deep \<longrightarrow> chunk id__in (if deep then 1 else 10) = map (\<lambda>ident. [ident]) id__in) \<and>
   (\<not> deep \<longrightarrow> map length (chunk id__in (if deep then 1 else 10)) =
      replicate (length id__in div 10) 10 @
        (if length id__in mod 10 = 0 then [] else [length id__in mod 10])) \<and>
   (\<exists>m \<le> length (chunk id__in (if deep then 1 else 10)).
      copy_calls (snd (copyContentNodes (recording r) id__in target deep [])) =
        map (\<lambda>ident. (ident, target, LAST_CHILD, deep))
          (concat (take m (chunk id__in (if deep then 1 else 10)))) \<and>
      (id__in \<noteq> [] \<longrightarrow> 0 < m) \<and>
      (\<forall>results. fst (copyContentNodes (recording r) id__in target deep []) = Inr results \<longrightarrow>
         copy_calls (snd (copyContentNodes (recording r) id__in target deep [])) =
           map (\<lambda>ident. (ident, target, LAST_CHILD, deep)) id__in)) \<and>
   (\<not> (deep \<and> length children \<noteq> 0) \<longrightarrow>
      copyContentNode ctx ident target position deep children w =
        (case ContentNode_copy ctx ident target position deep w of
           (Inl e, w1) \<Rightarrow> (Inl e, w1)
         | (Inr nodes, w1) \<Rightarrow>
             (case promiseChunk_reduce (copy_chunk ctx) (chunk nodes 10) []
                     (commit_ADD_CONTENTNODES ctx nodes w1) of
                (Inl e, w2) \<Rightarrow> (Inl e, w2)
              | (Inr x, w2) \<Rightarrow>
                  (if length children \<noteq> 0
                   then (case copy_children ctx nodes children w2 of
                           (rs, w3) \<Rightarrow>
                             (bindE (all_or_first_rejection rs)
                                (\<lambda>results. Inr (nodes @ hd results)), w3))
                   else (Inr nodes, w2))))) \<and>
   (\<forall>nodeChunk \<in> set (chunk nodes 10). 1 \<le> length nodeChunk \<and> length nodeChunk \<le> 10) \<and>
   concat (chunk nodes 10) = nodes \<and>
   map length (chunk nodes 10) =
     replicate (length nodes div 10) 10 @
       (if length nodes mod 10 = 0 then [] else [length nodes mod 10]) \<and>
   copy_chunk ctx nodeChunk w =
     (if distinct (map source_id nodeChunk) \<and>
         (\<forall>n \<in> set nodeChunk. source_id n \<notin> set Object_prototype_members)
      then Promise_all
             [dispatch_copyAssessmentItems ctx (own_keys_order (map source_id nodeChunk))
                (map (\<lambda>n. (source_id n, n)) nodeChunk),
              dispatch_copyFiles ctx (own_keys_order (map source_id nodeChunk))
                (map (\<lambda>n. (source_id n, n)) nodeChunk)] w
      else (Inl (Error ''Not implemented''), w)) \<and>
   snd (copy_chunk (recording r) nodeChunk t) =
     (if distinct (map source_id nodeChunk) \<and>
         (\<forall>n \<in> set nodeChunk. source_id n \<notin> set Object_prototype_members)
      then t @ dispatches_of nodeChunk else t) \<and>
   (\<exists>ks. dispatches_of nodeChunk = [Dispatch_copyAssessmentItems ks, Dispatch_copyFiles ks] \<and>
      length ks = length nodeChunk \<and> set ks = source_id ` set nodeChunk \<and>
      ((\<forall>n \<in> set nodeChunk. \<not> array_index (source_id n)) \<longrightarrow> ks = map source_id nodeChunk)) \<and>
   (\<not> (deep \<and> length children \<noteq> 0) \<and>
    copy_response r (t @ [Call_copy ident target position deep]) = Inr nodes \<longrightarrow>
      (\<exists>m rest. m \<le> length (chunk nodes 10) \<and>
         snd (copyContentNode (recording r) ident target position deep children t) =
           t @ [Call_copy ident target position deep, Commit_ADD_CONTENTNODES nodes] @
             concat (map dispatches_of (take m (chunk nodes 10))) @ rest \<and>
         (m < length (chunk nodes 10) \<or> length children = 0 \<longrightarrow> rest = []))) \<and>
   (\<forall>ns t'. copyContentNode (recording r) ident target position deep [] t = (Inr ns, t') \<longrightarrow>
      copy_response r (t @ [Call_copy ident target position deep]) = Inr ns \<and>
      t' = t @ [Call_copy ident target position deep, Commit_ADD_CONTENTNODES ns] @
             concat (map dispatches_of (chunk ns 10))) \<and>
   (copy_response r (t @ [Call_copy ident target position deep]) = Inr nodes \<and>
    (\<forall>u. items_response r u = Inr ()) \<and> (\<forall>u. files_response r u = Inr ()) \<and>
    distinct (map source_id nodes) \<and>
    (\<forall>n \<in> set nodes. source_id n \<notin> set Object_prototype_members) \<longrightarrow>
      copyContentNode (recording r) ident target position deep [] t =
        (Inr nodes,
         t @ [Call_copy ident target position deep, Commit_ADD_CONTENTNODES nodes] @
           concat (map dispatches_of (chunk nodes 10)))) \<and>
   (\<forall>ids. Dispatch_copyAssessmentItems ids
            \<in> set (snd (copyContentNode (recording r) ident target position deep children [])) \<or>
          Dispatch_copyFiles ids
            \<in> set (snd (copyContentNode (recording r) ident target position deep children [])) \<longrightarrow>
          length ids \<le> 10) \<and>
   (\<forall>ids. Dispatch_copyAssessmentItems ids
            \<in> set (snd (copyContentNodes (recording r) id__in target deep [])) \<or>
          Dispatch_copyFiles ids
            \<in> set (snd (copyContentNodes (recording r) id__in target deep [])) \<longrightarrow>
          length ids \<le> 10)"
proof -
  have b0: "dispatches_bounded []"
    by (simp add: dispatches_bounded_def)
  have outer: "copyContentNodes ctx id__in target deep w =
     (if id__in = [] then (Inr [], w)
      else promiseChunk_reduce
             (\<lambda>idChunk. Promise_all
                (map (\<lambda>ident. copyContentNode ctx ident target LAST_CHILD deep []) idChunk))
             (chunk id__in (if deep then 1 else 10)) [] w)"
    by (simp add: copyContentNodes_def promiseChunk_def)
  have outer_bounds: "(\<forall>idChunk \<in> set (chunk id__in (if deep then 1 else 10)).
      1 \<le> length idChunk \<and> length idChunk \<le> (if deep then 1 else 10))"
    using chunk_lengths [of _ id__in "if deep then 1 else 10"] by (auto simp: Suc_le_eq)
  have outer_concat: "concat (chunk id__in (if deep then 1 else 10)) = id__in"
    by (simp add: concat_chunk)
  have outer_deep: "(deep \<longrightarrow> chunk id__in (if deep then 1 else 10) = map (\<lambda>ident. [ident]) id__in)"
    by (simp add: chunk_one)
  have outer_exact: "(\<not> deep \<longrightarrow> map length (chunk id__in (if deep then 1 else 10)) =
      replicate (length id__in div 10) 10 @
        (if length id__in mod 10 = 0 then [] else [length id__in mod 10]))"
    using chunk_lengths_exact [of 10 id__in] by simp
  have outer_calls: "(\<exists>m \<le> length (chunk id__in (if deep then 1 else 10)).
      copy_calls (snd (copyContentNodes (recording r) id__in target deep [])) =
        map (\<lambda>ident. (ident, target, LAST_CHILD, deep))
          (concat (take m (chunk id__in (if deep then 1 else 10)))) \<and>
      (id__in \<noteq> [] \<longrightarrow> 0 < m) \<and>
      (\<forall>results. fst (copyContentNodes (recording r) id__in target deep []) = Inr results \<longrightarrow>
         copy_calls (snd (copyContentNodes (recording r) id__in target deep [])) =
           map (\<lambda>ident. (ident, target, LAST_CHILD, deep)) id__in))"
    proof -
    from copy_calls_copyContentNodes [of id__in deep r target "[]"] obtain m where
      m: "m \<le> length (chunk id__in (if deep then 1 else 10))"
      "copy_calls (snd (copyContentNodes (recording r) id__in target deep [])) =
         copy_calls [] @ map (\<lambda>ident. (ident, target, LAST_CHILD, deep))
           (concat (take m (chunk id__in (if deep then 1 else 10))))"
      "id__in \<noteq> [] \<longrightarrow> 0 < m"
      "\<forall>x. fst (copyContentNodes (recording r) id__in target deep []) = Inr x \<longrightarrow>
         m = length (chunk id__in (if deep then 1 else 10))"
      by blast
    have e: "copy_calls [] = []"
      by (simp add: copy_calls_def)
    show ?thesis
    proof (intro exI [of _ m] conjI allI impI)
      show "m \<le> length (chunk id__in (if deep then 1 else 10))" by (rule m(1))
      show "copy_calls (snd (copyContentNodes (recording r) id__in target deep [])) =
        map (\<lambda>ident. (ident, target, LAST_CHILD, deep))
          (concat (take m (chunk id__in (if deep then 1 else 10))))"
        using m(2) e by simp
      show "0 < m" if "id__in \<noteq> []"
        using m(3) that by simp
      show "copy_calls (snd (copyContentNodes (recording r) id__in target deep [])) =
           map (\<lambda>ident. (ident, target, LAST_CHILD, deep)) id__in"
        if "fst (copyContentNodes (recording r) id__in target deep []) = Inr results" for results
      proof -
        from m(4) that have "m = length (chunk id__in (if deep then 1 else 10))"
          by blast
        with m(2) e outer_concat show ?thesis
          by simp
      qed
    qed
  qed
  have inner: "(\<not> (deep \<and> length children \<noteq> 0) \<longrightarrow>
      copyContentNode ctx ident target position deep children w =
        (case ContentNode_copy ctx ident target position deep w of
           (Inl e, w1) \<Rightarrow> (Inl e, w1)
         | (Inr nodes, w1) \<Rightarrow>
             (case promiseChunk_reduce (copy_chunk ctx) (chunk nodes 10) []
                     (commit_ADD_CONTENTNODES ctx nodes w1) of
                (Inl e, w2) \<Rightarrow> (Inl e, w2)
              | (Inr x, w2) \<Rightarrow>
                  (if length children \<noteq> 0
                   then (case copy_children ctx nodes children w2 of
                           (rs, w3) \<Rightarrow>
                             (bindE (all_or_first_rejection rs)
                                (\<lambda>results. Inr (nodes @ hd results)), w3))
                   else (Inr nodes, w2)))))"
    by (intro impI) (erule copyContentNode_structure)
  have inner_bounds: "(\<forall>nodeChunk \<in> set (chunk nodes 10). 1 \<le> length nodeChunk \<and> length nodeChunk \<le> 10)"
    using chunk_lengths [of _ nodes 10] by (auto simp: Suc_le_eq)
  have inner_concat: "concat (chunk nodes 10) = nodes"
    by (simp add: concat_chunk)
  have inner_exact: "map length (chunk nodes 10) =
     replicate (length nodes div 10) 10 @
       (if length nodes mod 10 = 0 then [] else [length nodes mod 10])"
    by (rule chunk_lengths_exact) simp
  have callback: "copy_chunk ctx nodeChunk w =
     (if distinct (map source_id nodeChunk) \<and>
         (\<forall>n \<in> set nodeChunk. source_id n \<notin> set Object_prototype_members)
      then Promise_all
             [dispatch_copyAssessmentItems ctx (own_keys_order (map source_id nodeChunk))
                (map (\<lambda>n. (source_id n, n)) nodeChunk),
              dispatch_copyFiles ctx (own_keys_order (map source_id nodeChunk))
                (map (\<lambda>n. (source_id n, n)) nodeChunk)] w
      else (Inl (Error ''Not implemented''), w))"
    by (rule copy_chunk_cases)
  have group: "snd (copy_chunk (recording r) nodeChunk t) =
     (if distinct (map source_id nodeChunk) \<and>
         (\<forall>n \<in> set nodeChunk. source_id n \<notin> set Object_prototype_members)
      then t @ dispatches_of nodeChunk else t)"
    by (rule copy_chunk_trace_cases)
  have ids: "(\<exists>ks. dispatches_of nodeChunk = [Dispatch_copyAssessmentItems ks, Dispatch_copyFiles ks] \<and>
      length ks = length nodeChunk \<and> set ks = source_id ` set nodeChunk \<and>
      ((\<forall>n \<in> set nodeChunk. \<not> array_index (source_id n)) \<longrightarrow> ks = map source_id nodeChunk))"
    by (rule dispatches_of_ids)
  have groups_first: "(\<not> (deep \<and> length children \<noteq> 0) \<and>
    copy_response r (t @ [Call_copy ident target position deep]) = Inr nodes \<longrightarrow>
      (\<exists>m rest. m \<le> length (chunk nodes 10) \<and>
         snd (copyContentNode (recording r) ident target position deep children t) =
           t @ [Call_copy ident target position deep, Commit_ADD_CONTENTNODES nodes] @
             concat (map dispatches_of (take m (chunk nodes 10))) @ rest \<and>
         (m < length (chunk nodes 10) \<or> length children = 0 \<longrightarrow> rest = [])))"
    by (intro impI, elim conjE) (rule copyContentNode_groups_first)
  have resolved: "(\<forall>ns t'. copyContentNode (recording r) ident target position deep [] t = (Inr ns, t') \<longrightarrow>
      copy_response r (t @ [Call_copy ident target position deep]) = Inr ns \<and>
      t' = t @ [Call_copy ident target position deep, Commit_ADD_CONTENTNODES ns] @
             concat (map dispatches_of (chunk ns 10)))"
    by (intro allI impI) (erule copyContentNode_leaf_resolved)
  have resolves: "(copy_response r (t @ [Call_copy ident target position deep]) = Inr nodes \<and>
    (\<forall>u. items_response r u = Inr ()) \<and> (\<forall>u. files_response r u = Inr ()) \<and>
    distinct (map source_id nodes) \<and>
    (\<forall>n \<in> set nodes. source_id n \<notin> set Object_prototype_members) \<longrightarrow>
      copyContentNode (recording r) ident target position deep [] t =
        (Inr nodes,
         t @ [Call_copy ident target position deep, Commit_ADD_CONTENTNODES nodes] @
           concat (map dispatches_of (chunk nodes 10))))"
    by (intro impI, elim conjE) (rule copyContentNode_leaf_ok)
  have bound_copy: "(\<forall>ids. Dispatch_copyAssessmentItems ids
            \<in> set (snd (copyContentNode (recording r) ident target position deep children [])) \<or>
          Dispatch_copyFiles ids
            \<in> set (snd (copyContentNode (recording r) ident target position deep children [])) \<longrightarrow>
          length ids \<le> 10)"
    using bounded_copy(1) [OF refl b0, of r ident target position deep children]
    unfolding dispatches_bounded_def by (auto split: event.splits)
  have bound_copies: "(\<forall>ids. Dispatch_copyAssessmentItems ids
            \<in> set (snd (copyContentNodes (recording r) id__in target deep [])) \<or>
          Dispatch_copyFiles ids
            \<in> set (snd (copyContentNodes (recording r) id__in target deep [])) \<longrightarrow>
          length ids \<le> 10)"
    using bounded_copyContentNodes [OF b0, of r id__in target deep]
    unfolding dispatches_bounded_def by (auto split: event.splits)
  from outer outer_bounds outer_concat outer_deep outer_exact outer_calls inner inner_bounds inner_concat inner_exact callback group ids groups_first resolved resolves bound_copy bound_copies
  show ?thesis
    by (intro conjI)
qed

lemma example_chunks:
  "chunk example_ids 10 =
     [[''a'', ''b'', ''c'', ''d'', ''e'', ''f'', ''g'', ''h'', ''i'', ''j''], [''k'', ''l'']]"
  by code_simp

lemma example_copy_run:
  "copyContentNode (recording example_responses) ''n1'' ''t1'' LAST_CHILD False [] [] =
     (Inr [\<lparr>id' = ''copy-of-n1'', source_id = ''n1''\<rparr>],
      [Call_copy ''n1'' ''t1'' LAST_CHILD False,
       Commit_ADD_CONTENTNODES [\<lparr>id' = ''copy-of-n1'', source_id = ''n1''\<rparr>],
       Dispatch_copyAssessmentItems [''n1''],
       Dispatch_copyFiles [''n1'']])"
  by code_simp

lemma example_copyContentNodes_resolves:
  "fst (copyContentNodes (recording example_responses) example_ids ''t1'' False []) =
     Inr (map (\<lambda>i. [\<lparr>id' = ''copy-of-'' @ i, source_id = i\<rparr>]) example_ids)"
  by code_simp

lemma example_dispatches:
  "concat (map dispatches_of (chunk example_nodes 10)) =
     [Dispatch_copyAssessmentItems
        [''a'', ''b'', ''c'', ''d'', ''e'', ''f'', ''g'', ''h'', ''i'', ''j''],
      Dispatch_copyFiles [''a'', ''b'', ''c'', ''d'', ''e'', ''f'', ''g'', ''h'', ''i'', ''j''],
      Dispatch_copyAssessmentItems [''k'', ''l''],
      Dispatch_copyFiles [''k'', ''l'']]"
  by code_simp

lemma example_nodes_distinct:
  "distinct (map source_id example_nodes) \<and>
   list_all (\<lambda>n. source_id n \<notin> set Object_prototype_members) example_nodes"
  by code_simp

lemma example_indexed_group:
  "distinct (map source_id indexed_nodes) \<and>
   list_all (\<lambda>n. source_id n \<notin> set Object_prototype_members) indexed_nodes \<and>
   dispatches_of indexed_nodes =
     [Dispatch_copyAssessmentItems [''9'', ''10'', ''b'', ''07''],
      Dispatch_copyFiles [''9'', ''10'', ''b'', ''07'']]"
  by code_simp

lemma example_children_run:
  "copy_response example_responses ([] @ [Call_copy ''n1'' ''t1'' LAST_CHILD False]) =
     Inr [\<lparr>id' = ''copy-of-n1'', source_id = ''n1''\<rparr>] \<and>
   chunk [\<lparr>id' = ''copy-of-n1'', source_id = ''n1''\<rparr>] 10 =
     [[\<lparr>id' = ''copy-of-n1'', source_id = ''n1''\<rparr>]] \<and>
   dispatches_of [\<lparr>id' = ''copy-of-n1'', source_id = ''n1''\<rparr>] =
     [Dispatch_copyAssessmentItems [''n1''], Dispatch_copyFiles [''n1'']] \<and>
   length (snd (copyContentNode (recording example_responses) ''n1'' ''t1'' LAST_CHILD False
             [Child ''c1'' [], Child ''c2'' []] [])) = 12"
  by code_simp

theorem copy_chunk_sizes_witness:
  "map length (chunk example_ids (if False then 1 else 10)) = [10, 2] \<and>
   list_all (\<lambda>idChunk. 1 \<le> length idChunk \<and> length idChunk \<le> (if False then 1 else 10))
     (chunk example_ids (if False then 1 else 10)) \<and>
   concat (chunk example_ids (if False then 1 else 10)) = example_ids \<and>
   chunk example_ids (if True then 1 else 10) = map (\<lambda>ident. [ident]) example_ids \<and>
   copy_calls (snd (copyContentNodes (recording example_responses) example_ids ''t1'' False [])) =
     map (\<lambda>ident. (ident, ''t1'', LAST_CHILD, False)) example_ids \<and>
   map length (chunk example_nodes 10) = [10, 2] \<and>
   copyContentNode (recording deep_copy_responses) ''n1'' ''t1'' LAST_CHILD True [] [] =
     (Inr example_nodes,
      [Call_copy ''n1'' ''t1'' LAST_CHILD True,
       Commit_ADD_CONTENTNODES example_nodes,
       Dispatch_copyAssessmentItems
         [''a'', ''b'', ''c'', ''d'', ''e'', ''f'', ''g'', ''h'', ''i'', ''j''],
       Dispatch_copyFiles [''a'', ''b'', ''c'', ''d'', ''e'', ''f'', ''g'', ''h'', ''i'', ''j''],
       Dispatch_copyAssessmentItems [''k'', ''l''],
       Dispatch_copyFiles [''k'', ''l'']]) \<and>
   snd (copy_chunk (recording deep_copy_responses) indexed_nodes []) =
     [Dispatch_copyAssessmentItems [''9'', ''10'', ''b'', ''07''],
      Dispatch_copyFiles [''9'', ''10'', ''b'', ''07'']] \<and>
   (\<exists>rest. snd (copyContentNode (recording example_responses) ''n1'' ''t1'' LAST_CHILD False
                  [Child ''c1'' [], Child ''c2'' []] []) =
      [Call_copy ''n1'' ''t1'' LAST_CHILD False,
       Commit_ADD_CONTENTNODES [\<lparr>id' = ''copy-of-n1'', source_id = ''n1''\<rparr>],
       Dispatch_copyAssessmentItems [''n1''],
       Dispatch_copyFiles [''n1'']] @ rest \<and>
      length rest = 8) \<and>
   list_all (\<lambda>e. case e of
                 Dispatch_copyAssessmentItems ids \<Rightarrow> length ids \<le> 10
               | Dispatch_copyFiles ids \<Rightarrow> length ids \<le> 10
               | _ \<Rightarrow> True)
     (snd (copyContentNodes (recording deep_copy_responses) example_ids ''t1'' True []))"
proof -
  note A = copy_chunk_sizes [where ctx = "recording example_responses" and id__in = example_ids
      and target = "''t1''" and deep = False and w = "[]" and r = example_responses
      and ident = "''n1''" and position = LAST_CHILD
      and nodes = "[\<lparr>id' = ''copy-of-n1'', source_id = ''n1''\<rparr>]"
      and nodeChunk = indexed_nodes and t = "[]" and children = "[Child ''c1'' [], Child ''c2'' []]"]
  note B = copy_chunk_sizes [where ctx = "recording deep_copy_responses" and id__in = example_ids
      and target = "''t1''" and deep = True and w = "[]" and r = deep_copy_responses
      and ident = "''n1''" and position = LAST_CHILD and nodes = example_nodes
      and nodeChunk = indexed_nodes and t = "[]" and children = "[]"]
  note A2 = A [THEN conjunct2]
  note A3 = A2 [THEN conjunct2]
  note A4 = A3 [THEN conjunct2]
  note A5 = A4 [THEN conjunct2]
  note A6 = A5 [THEN conjunct2]
  note A7 = A6 [THEN conjunct2]
  note A8 = A7 [THEN conjunct2]
  note A9 = A8 [THEN conjunct2]
  note A10 = A9 [THEN conjunct2]
  note A11 = A10 [THEN conjunct2]
  note A12 = A11 [THEN conjunct2]
  note A13 = A12 [THEN conjunct2]
  note A14 = A13 [THEN conjunct2]
  note B2 = B [THEN conjunct2]
  note B3 = B2 [THEN conjunct2]
  note B4 = B3 [THEN conjunct2]
  note B5 = B4 [THEN conjunct2]
  note B6 = B5 [THEN conjunct2]
  note B7 = B6 [THEN conjunct2]
  note B8 = B7 [THEN conjunct2]
  note B9 = B8 [THEN conjunct2]
  note B10 = B9 [THEN conjunct2]
  note B11 = B10 [THEN conjunct2]
  note B12 = B11 [THEN conjunct2]
  note B13 = B12 [THEN conjunct2]
  note B14 = B13 [THEN conjunct2]
  note B15 = B14 [THEN conjunct2]
  note B16 = B15 [THEN conjunct2]
  note B17 = B16 [THEN conjunct2]
  note B18 = B17 [THEN conjunct2]
  note A_groups_first = A14 [THEN conjunct1]
  note A_outer_bounds = A2 [THEN conjunct1]
  note A_outer_calls = A6 [THEN conjunct1]
  note A_outer_concat = A3 [THEN conjunct1]
  note A_outer_exact = A5 [THEN conjunct1]
  note B_bound_copies = B18
  note B_group = B12 [THEN conjunct1]
  note B_inner_exact = B10 [THEN conjunct1]
  note B_outer_deep = B4 [THEN conjunct1]
  note B_resolves = B16 [THEN conjunct1]
  have len: "length example_ids = 12" "length example_nodes = 12"
    by (simp_all add: example_ids_def example_nodes_def)
  from A_outer_exact have 1: "map length (chunk example_ids (if False then 1 else 10)) = [10, 2]"
    by (simp add: len)
  from A_outer_bounds
  have 2: "list_all (\<lambda>idChunk. 1 \<le> length idChunk \<and> length idChunk \<le> (if False then 1 else 10))
     (chunk example_ids (if False then 1 else 10))"
    unfolding list_all_iff .
  note 3 = A_outer_concat
  from B_outer_deep
  have 4: "chunk example_ids (if True then 1 else 10) = map (\<lambda>ident. [ident]) example_ids"
    by simp
  from A_outer_calls example_copyContentNodes_resolves
  have 5: "copy_calls (snd (copyContentNodes (recording example_responses) example_ids ''t1'' False [])) =
     map (\<lambda>ident. (ident, ''t1'', LAST_CHILD, False)) example_ids"
    by blast
  from B_inner_exact have 6: "map length (chunk example_nodes 10) = [10, 2]"
    by (simp add: len)
  have h: "copy_response deep_copy_responses ([] @ [Call_copy ''n1'' ''t1'' LAST_CHILD True]) =
        Inr example_nodes \<and>
      (\<forall>u. items_response deep_copy_responses u = Inr ()) \<and>
      (\<forall>u. files_response deep_copy_responses u = Inr ()) \<and>
      distinct (map source_id example_nodes) \<and>
      (\<forall>n \<in> set example_nodes. source_id n \<notin> set Object_prototype_members)"
    using example_nodes_distinct by (simp add: deep_copy_responses_def list_all_iff)
  from B_resolves [rule_format, OF h]
  have 7: "copyContentNode (recording deep_copy_responses) ''n1'' ''t1'' LAST_CHILD True [] [] =
     (Inr example_nodes,
      [Call_copy ''n1'' ''t1'' LAST_CHILD True,
       Commit_ADD_CONTENTNODES example_nodes,
       Dispatch_copyAssessmentItems
         [''a'', ''b'', ''c'', ''d'', ''e'', ''f'', ''g'', ''h'', ''i'', ''j''],
       Dispatch_copyFiles [''a'', ''b'', ''c'', ''d'', ''e'', ''f'', ''g'', ''h'', ''i'', ''j''],
       Dispatch_copyAssessmentItems [''k'', ''l''],
       Dispatch_copyFiles [''k'', ''l'']])"
    by (simp add: example_dispatches)
  from B_group example_indexed_group
  have 8: "snd (copy_chunk (recording deep_copy_responses) indexed_nodes []) =
     [Dispatch_copyAssessmentItems [''9'', ''10'', ''b'', ''07''],
      Dispatch_copyFiles [''9'', ''10'', ''b'', ''07'']]"
    by (simp add: list_all_iff)
  have c: "\<not> (False \<and> length [Child ''c1'' [], Child ''c2'' []] \<noteq> 0) \<and>
      copy_response example_responses ([] @ [Call_copy ''n1'' ''t1'' LAST_CHILD False]) =
        Inr [\<lparr>id' = ''copy-of-n1'', source_id = ''n1''\<rparr>]"
    using example_children_run by simp
  from A_groups_first [rule_format, OF c] obtain m rest where
    m: "m \<le> length (chunk [\<lparr>id' = ''copy-of-n1'', source_id = ''n1''\<rparr>] 10)"
    and run: "snd (copyContentNode (recording example_responses) ''n1'' ''t1'' LAST_CHILD False
                [Child ''c1'' [], Child ''c2'' []] []) =
      [] @ [Call_copy ''n1'' ''t1'' LAST_CHILD False,
            Commit_ADD_CONTENTNODES [\<lparr>id' = ''copy-of-n1'', source_id = ''n1''\<rparr>]] @
        concat (map dispatches_of
          (take m (chunk [\<lparr>id' = ''copy-of-n1'', source_id = ''n1''\<rparr>] 10))) @ rest"
    and last: "m < length (chunk [\<lparr>id' = ''copy-of-n1'', source_id = ''n1''\<rparr>] 10) \<or>
        length [Child ''c1'' [], Child ''c2'' []] = 0 \<longrightarrow> rest = []"
    by blast
  note ex = example_children_run [THEN conjunct2]
  have "m = 1"
  proof (rule ccontr)
    assume "m \<noteq> 1"
    with m ex have "m = 0"
      by simp
    with last ex have "rest = []"
      by simp
    with run \<open>m = 0\<close> ex show False
      by simp
  qed
  with run ex
  have 9: "\<exists>rest. snd (copyContentNode (recording example_responses) ''n1'' ''t1'' LAST_CHILD False
                  [Child ''c1'' [], Child ''c2'' []] []) =
      [Call_copy ''n1'' ''t1'' LAST_CHILD False,
       Commit_ADD_CONTENTNODES [\<lparr>id' = ''copy-of-n1'', source_id = ''n1''\<rparr>],
       Dispatch_copyAssessmentItems [''n1''],
       Dispatch_copyFiles [''n1'']] @ rest \<and>
      length rest = 8"
    by (intro exI [of _ rest]) simp
  from B_bound_copies
  have 10: "list_all (\<lambda>e. case e of
                 Dispatch_copyAssessmentItems ids \<Rightarrow> length ids \<le> 10
               | Dispatch_copyFiles ids \<Rightarrow> length ids \<le> 10
               | _ \<Rightarrow> True)
     (snd (copyContentNodes (recording deep_copy_responses) example_ids ''t1'' True []))"
    unfolding list_all_iff by (auto split: event.splits)
  from 1 2 3 4 5 6 7 8 9 10 show ?thesis
    by (intro conjI)
qed
section \<open>Properties of the tracked menu actions\<close>

text \<open>
  C8. Each of the three actions wrapped with \<^verbatim>\<open>withChangeTracker\<close> hands the tracker's
  \<^verbatim>\<open>revert\<close> to its caller as the \<^verbatim>\<open>actionCallback\<close> of the snackbars it shows, and that
  callback, whatever arguments it is called with, calls \<^verbatim>\<open>revert\<close> once, with no
  arguments. The snackbars are exactly these. \<^verbatim>\<open>removeNode\<close> shows one, with the undo
  action, once the move has resolved; when the move is rejected nothing has been removed and
  no snackbar is shown. \<^verbatim>\<open>copyToClipboard\<close> and \<^verbatim>\<open>duplicateNode\<close> first show one with the
  cancel action, before the copy starts, and a second one with the undo action once the
  copy has resolved. No other snackbar is shown, so every callback the actions hand out
  reverts with no arguments.
\<close>

theorem revert_called_with_no_arguments:
  "shown (snd (removeNode (ui_recording r) this t)) =
     shown t @
     (case move_response r (t @ [Moved [nodeId this] (trashId this)]) of
        Inl e \<Rightarrow> []
      | Inr moved \<Rightarrow>
          [\<lparr> text' = ''removedItems'', actionText = ''undo'', duration = JUndefined,
             actionCallback = (\<lambda>args. [Revert []]) \<rparr>]) \<and>
   shown (snd (copyToClipboard (ui_recording r) this t)) =
     shown t @
     \<lparr> text' = ''creatingClipboardCopies'', actionText = ''cancel'', duration = JNull,
       actionCallback = (\<lambda>args. [Revert []]) \<rparr> #
     (case clipboard_response r
             (t @ [Shown \<lparr> text' = ''creatingClipboardCopies'', actionText = ''cancel'',
                           duration = JNull, actionCallback = (\<lambda>args. [Revert []]) \<rparr>,
                   Clipboard_copied (node_node_id this) (node_channel_id this)]) of
        Inl e \<Rightarrow> []
      | Inr copied \<Rightarrow>
          [\<lparr> text' = ''copiedToClipboardSnackbar'', actionText = ''undo'',
             duration = JUndefined, actionCallback = (\<lambda>args. [Revert []]) \<rparr>]) \<and>
   shown (snd (duplicateNode (ui_recording r) this t)) =
     shown t @
     \<lparr> text' = ''creatingCopies'', actionText = ''cancel'', duration = JNull,
       actionCallback = (\<lambda>args. [Revert []]) \<rparr> #
     (case duplicate_response r
             (t @ [Shown \<lparr> text' = ''creatingCopies'', actionText = ''cancel'',
                           duration = JNull, actionCallback = (\<lambda>args. [Revert []]) \<rparr>,
                   Node_copied (nodeId this) (node_parent this) True]) of
        Inl e \<Rightarrow> []
      | Inr nodes \<Rightarrow>
          [\<lparr> text' = ''copiedSnackbar'', actionText = ''undo'', duration = JUndefined,
             actionCallback = (\<lambda>args. [Revert []]) \<rparr>]) \<and>
   (\<forall>sb \<in> set (shown (snd (removeNode (ui_recording r) this []))) \<union>
            set (shown (snd (copyToClipboard (ui_recording r) this []))) \<union>
            set (shown (snd (duplicateNode (ui_recording r) this []))).
      \<forall>args. actionCallback sb args = [Revert []])"
proof -
  have shown_append: "shown (u @ v) = shown u @ shown v" for u v
    by (simp add: shown_def)
  have shown_simps: "shown [] = []" "shown (Shown sb # u) = sb # shown u"
    "shown (Moved ids parent # u) = shown u"
    "shown (Clipboard_copied node_id channel_id # u) = shown u"
    "shown (Node_copied i target deep # u) = shown u" for sb u ids parent node_id channel_id i target deep
    by (simp_all add: shown_def)
  have remove: "shown (snd (removeNode (ui_recording r) this t)) =
     shown t @
     (case move_response r (t @ [Moved [nodeId this] (trashId this)]) of
        Inl e \<Rightarrow> []
      | Inr moved \<Rightarrow>
          [\<lparr> text' = ''removedItems'', actionText = ''undo'', duration = JUndefined,
             actionCallback = (\<lambda>args. [Revert []]) \<rparr>])" for t
    by (simp add: removeNode_def ui_recording_def shown_append shown_simps split: sum.splits)
  have clipboard: "shown (snd (copyToClipboard (ui_recording r) this t)) =
     shown t @
     \<lparr> text' = ''creatingClipboardCopies'', actionText = ''cancel'', duration = JNull,
       actionCallback = (\<lambda>args. [Revert []]) \<rparr> #
     (case clipboard_response r
             (t @ [Shown \<lparr> text' = ''creatingClipboardCopies'', actionText = ''cancel'',
                           duration = JNull, actionCallback = (\<lambda>args. [Revert []]) \<rparr>,
                   Clipboard_copied (node_node_id this) (node_channel_id this)]) of
        Inl e \<Rightarrow> []
      | Inr copied \<Rightarrow>
          [\<lparr> text' = ''copiedToClipboardSnackbar'', actionText = ''undo'',
             duration = JUndefined, actionCallback = (\<lambda>args. [Revert []]) \<rparr>])" for t
    by (simp add: copyToClipboard_def ui_recording_def shown_append shown_simps
        split: sum.splits prod.splits)
  have duplicate: "shown (snd (duplicateNode (ui_recording r) this t)) =
     shown t @
     \<lparr> text' = ''creatingCopies'', actionText = ''cancel'', duration = JNull,
       actionCallback = (\<lambda>args. [Revert []]) \<rparr> #
     (case duplicate_response r
             (t @ [Shown \<lparr> text' = ''creatingCopies'', actionText = ''cancel'',
                           duration = JNull, actionCallback = (\<lambda>args. [Revert []]) \<rparr>,
                   Node_copied (nodeId this) (node_parent this) True]) of
        Inl e \<Rightarrow> []
      | Inr nodes \<Rightarrow>
          [\<lparr> text' = ''copiedSnackbar'', actionText = ''undo'', duration = JUndefined,
             actionCallback = (\<lambda>args. [Revert []]) \<rparr>])" for t
    by (simp add: duplicateNode_def ui_recording_def shown_append shown_simps Let_def
        split: sum.splits prod.splits)
  have callbacks: "\<forall>sb \<in> set (shown (snd (removeNode (ui_recording r) this []))) \<union>
            set (shown (snd (copyToClipboard (ui_recording r) this []))) \<union>
            set (shown (snd (duplicateNode (ui_recording r) this []))).
      \<forall>args. actionCallback sb args = [Revert []]"
    unfolding remove clipboard duplicate
    by (auto simp: shown_simps split: sum.splits)
  from remove [of t] clipboard [of t] duplicate [of t] callbacks show ?thesis
    by (intro conjI)
qed

lemma example_removeNode_run:
  "map (\<lambda>sb. (text' sb, actionText sb, actionCallback sb [JStr ''click'', JNum 2]))
     (shown (snd (removeNode (ui_recording example_ui_responses) example_component []))) =
   [(''removedItems'', ''undo'', [Revert []])]"
  by (simp add: removeNode_def ui_recording_def shown_def example_ui_responses_def
      example_component_def)

lemma example_duplicateNode_run:
  "map (\<lambda>sb. (text' sb, actionText sb, actionCallback sb [JStr ''click'', JNum 2]))
     (shown (snd (duplicateNode (ui_recording example_ui_responses) example_component []))) =
   [(''creatingCopies'', ''cancel'', [Revert []]), (''copiedSnackbar'', ''undo'', [Revert []])]"
  by (simp add: duplicateNode_def ui_recording_def shown_def example_ui_responses_def
      example_component_def)

theorem revert_called_with_no_arguments_witness:
  "map (\<lambda>sb. (text' sb, actionText sb, actionCallback sb [JStr ''click'', JNum 2]))
     (shown (snd (removeNode (ui_recording example_ui_responses) example_component []))) =
     [(''removedItems'', ''undo'', [Revert []])] \<and>
   map (\<lambda>sb. (text' sb, actionText sb, actionCallback sb [JStr ''click'', JNum 2]))
     (shown (snd (copyToClipboard (ui_recording example_ui_responses) example_component []))) =
     [(''creatingClipboardCopies'', ''cancel'', [Revert []]),
      (''copiedToClipboardSnackbar'', ''undo'', [Revert []])] \<and>
   map (\<lambda>sb. (text' sb, actionText sb, actionCallback sb [JStr ''click'', JNum 2]))
     (shown (snd (duplicateNode (ui_recording example_ui_responses) example_component []))) =
     [(''creatingCopies'', ''cancel'', [Revert []]), (''copiedSnackbar'', ''undo'', [Revert []])] \<and>
   shown (snd (removeNode (ui_recording rejecting_ui_responses) example_component [])) = [] \<and>
   map (\<lambda>sb. (text' sb, actionText sb, actionCallback sb []))
     (shown (snd (copyToClipboard (ui_recording rejecting_ui_responses) example_component []))) =
     [(''creatingClipboardCopies'', ''cancel'', [Revert []])] \<and>
   map (\<lambda>sb. (text' sb, actionText sb, actionCallback sb []))
     (shown (snd (duplicateNode (ui_recording rejecting_ui_responses) example_component []))) =
     [(''creatingCopies'', ''cancel'', [Revert []])] \<and>
   list_all (\<lambda>sb. actionCallback sb [JStr ''click'', JNum 2] = [Revert []])
     (shown (snd (removeNode (ui_recording example_ui_responses) example_component [])) @
      shown (snd (copyToClipboard (ui_recording example_ui_responses) example_component [])) @
      shown (snd (duplicateNode (ui_recording example_ui_responses) example_component [])))"
proof -
  note T = revert_called_with_no_arguments [of example_ui_responses example_component "[]"]
  note R = revert_called_with_no_arguments [of rejecting_ui_responses example_component "[]"]
  have e: "shown [] = []"
    by (simp add: shown_def)
  from T [THEN conjunct1]
  have 1: "map (\<lambda>sb. (text' sb, actionText sb, actionCallback sb [JStr ''click'', JNum 2]))
     (shown (snd (removeNode (ui_recording example_ui_responses) example_component []))) =
     [(''removedItems'', ''undo'', [Revert []])]"
    by (simp add: e example_ui_responses_def)
  from T [THEN conjunct2, THEN conjunct1]
  have 2: "map (\<lambda>sb. (text' sb, actionText sb, actionCallback sb [JStr ''click'', JNum 2]))
     (shown (snd (copyToClipboard (ui_recording example_ui_responses) example_component []))) =
     [(''creatingClipboardCopies'', ''cancel'', [Revert []]),
      (''copiedToClipboardSnackbar'', ''undo'', [Revert []])]"
    by (simp add: e example_ui_responses_def)
  from T [THEN conjunct2, THEN conjunct2, THEN conjunct1]
  have 3: "map (\<lambda>sb. (text' sb, actionText sb, actionCallback sb [JStr ''click'', JNum 2]))
     (shown (snd (duplicateNode (ui_recording example_ui_responses) example_component []))) =
     [(''creatingCopies'', ''cancel'', [Revert []]), (''copiedSnackbar'', ''undo'', [Revert []])]"
    by (simp add: e example_ui_responses_def)
  from R [THEN conjunct1]
  have 4: "shown (snd (removeNode (ui_recording rejecting_ui_responses) example_component [])) = []"
    by (simp add: e rejecting_ui_responses_def)
  from R [THEN conjunct2, THEN conjunct1]
  have 5: "map (\<lambda>sb. (text' sb, actionText sb, actionCallback sb []))
     (shown (snd (copyToClipboard (ui_recording rejecting_ui_responses) example_component []))) =
     [(''creatingClipboardCopies'', ''cancel'', [Revert []])]"
    by (simp add: e rejecting_ui_responses_def)
  from R [THEN conjunct2, THEN conjunct2, THEN conjunct1]
  have 6: "map (\<lambda>sb. (text' sb, actionText sb, actionCallback sb []))
     (shown (snd (duplicateNode (ui_recording rejecting_ui_responses) example_component []))) =
     [(''creatingCopies'', ''cancel'', [Revert []])]"
    by (simp add: e rejecting_ui_responses_def)
  from T [THEN conjunct2, THEN conjunct2, THEN conjunct2]
  have 7: "list_all (\<lambda>sb. actionCallback sb [JStr ''click'', JNum 2] = [Revert []])
     (shown (snd (removeNode (ui_recording example_ui_responses) example_component [])) @
      shown (snd (copyToClipboard (ui_recording example_ui_responses) example_component [])) @
      shown (snd (duplicateNode (ui_recording example_ui_responses) example_component [])))"
    unfolding list_all_iff by auto
  from 1 2 3 4 5 6 7 show ?thesis
    by (intro conjI)
qed
section \<open>Properties of the change tracker\<close>

lemma change_log_append_change:
  "change_log (append_change c s) = change_log s @ [c\<lparr>sequence := next_sequence (change_log s)\<rparr>]"
  by (simp add: append_change_def Let_def)

lemma store_append_change:
  "store (append_change c s) = apply_change (c\<lparr>sequence := next_sequence (change_log s)\<rparr>) (store s)"
  by (simp add: append_change_def Let_def)

lemma operation_of_sequence [simp]: "operation_of (c\<lparr>sequence := n\<rparr>) = operation_of c"
  by (simp add: operation_of_def)

lemma revert_each_emits:
  "\<exists>emitted.
     change_log (revert_each cs s) = change_log s @ emitted \<and>
     map operation_of emitted = map (operation_of \<circ> inverse_change) cs \<and>
     (\<forall>a \<in> set emitted. source a = REVERT_SOURCE \<and> syncState a = PENDING) \<and>
     store (revert_each cs s) = fold apply_change emitted (store s)"
proof (induction cs arbitrary: s)
  case Nil
  then show ?case by simp
next
  case (Cons c cs)
  let ?c' = "(inverse_change c)\<lparr>sequence := next_sequence (change_log s)\<rparr>"
  from Cons.IH [of "append_change (inverse_change c) s"] obtain emitted where
    e: "change_log (revert_each cs (append_change (inverse_change c) s)) =
          change_log (append_change (inverse_change c) s) @ emitted"
      "map operation_of emitted = map (operation_of \<circ> inverse_change) cs"
      "\<forall>a \<in> set emitted. source a = REVERT_SOURCE \<and> syncState a = PENDING"
      "store (revert_each cs (append_change (inverse_change c) s)) =
          fold apply_change emitted (store (append_change (inverse_change c) s))"
    by blast
  show ?case
  proof (intro exI [of _ "?c' # emitted"] conjI)
    show "change_log (revert_each (c # cs) s) = change_log s @ ?c' # emitted"
      using e(1) by (simp add: change_log_append_change)
    show "map operation_of (?c' # emitted) = map (operation_of \<circ> inverse_change) (c # cs)"
      using e(2) by simp
    show "\<forall>a \<in> set (?c' # emitted). source a = REVERT_SOURCE \<and> syncState a = PENDING"
      using e(3) by (simp add: inverse_change_def)
    show "store (revert_each (c # cs) s) = fold apply_change (?c' # emitted) (store s)"
      using e(4) by (simp add: store_append_change)
  qed
qed

lemma revert_selection_append_ignored:
  assumes "\<forall>a \<in> set emitted. ignored (source a)"
  shows "filter (\<lambda>c. \<not> ignored (source c)) (entriesSince w (l @ emitted)) =
         filter (\<lambda>c. \<not> ignored (source c)) (entriesSince w l)"
  using assms by (induction emitted) (auto simp: entriesSince_def)

lemma sorted_selection:
  assumes "sorted_wrt (<) (map sequence (change_log s))"
  shows "sorted_wrt (>) (map sequence (rev (revert_selection sess s)))"
proof -
  from assms have "sorted_wrt (\<lambda>a b. sequence a < sequence b) (change_log s)"
    by (simp add: sorted_wrt_map)
  then have "sorted_wrt (\<lambda>a b. sequence a < sequence b) (revert_selection sess s)"
    unfolding revert_selection_def entriesSince_def by (intro sorted_wrt_filter)
  then show ?thesis
    by (simp add: sorted_wrt_map sorted_wrt_rev rev_map [symmetric])
qed

text \<open>
  Appends and reverts keep the log in strictly ascending sequence order, so every log that
  grows from an empty one is in that order.
\<close>

lemma fold_max_sequence_ge:
  "m \<le> fold (\<lambda>c m. max (sequence c) m) l m \<and>
   (\<forall>c \<in> set l. sequence c \<le> fold (\<lambda>c m. max (sequence c) m) l m)"
proof (induction l arbitrary: m)
  case Nil
  then show ?case by simp
next
  case (Cons a l)
  from Cons.IH [of "max (sequence a) m"] show ?case
    by auto
qed

lemma sequence_le_current_max: "c \<in> set l \<Longrightarrow> sequence c \<le> current_max_sequence l"
  using fold_max_sequence_ge [of 0 l] by (simp add: current_max_sequence_def)

lemma sequence_less_next: "c \<in> set l \<Longrightarrow> sequence c < next_sequence l"
  using sequence_le_current_max [of c l] by (auto simp: next_sequence_def)

lemma append_change_keeps_order:
  assumes "sorted_wrt (<) (map sequence (change_log s))"
  shows "sorted_wrt (<) (map sequence (change_log (append_change c s)))"
  using assms sequence_less_next [of _ "change_log s"]
  by (auto simp: change_log_append_change sorted_wrt_append)

lemma revert_each_keeps_order:
  "sorted_wrt (<) (map sequence (change_log s)) \<Longrightarrow>
   sorted_wrt (<) (map sequence (change_log (revert_each cs s)))"
  by (induction cs arbitrary: s) (simp_all add: append_change_keeps_order)

lemma revert_keeps_order:
  "sorted_wrt (<) (map sequence (change_log s)) \<Longrightarrow>
   sorted_wrt (<) (map sequence (change_log (revert sess s)))"
  by (simp add: revert_def revert_each_keeps_order)

text \<open>
  C3. \<open>revert()\<close> visits the selected records in descending sequence order (the log being
  in ascending order, as appends and reverts leave it) and emits for each exactly its
  inverse: the
  records it adds to the log are, in order, the inverses of the selected records taken
  from the last to the first, each applied to the store. The inverse keeps the table and
  the key; CREATED becomes DELETED, DELETED becomes CREATED with the snapshot, UPDATED
  becomes UPDATED with the prior values as its delta, MOVED becomes the move to the prior
  parent and position, and COPIED becomes the DELETED of the copy.
\<close>

theorem revert_emits_inverses_in_reverse_order:
  assumes "sorted_wrt (<) (map sequence (change_log s))"
  shows "\<exists>emitted.
     change_log (revert sess s) = change_log s @ emitted \<and>
     map operation_of emitted =
       map (operation_of \<circ> inverse_change) (rev (revert_selection sess s)) \<and>
     sorted_wrt (>) (map sequence (rev (revert_selection sess s))) \<and>
     store (revert sess s) = fold apply_change emitted (store s) \<and>
     (\<forall>c. table (inverse_change c) = table c \<and> key (inverse_change c) = key c) \<and>
     (\<forall>c. type c = CREATED \<longrightarrow> type (inverse_change c) = DELETED) \<and>
     (\<forall>c r. type c = DELETED \<longrightarrow> payload c = Snapshot r \<longrightarrow>
        type (inverse_change c) = CREATED \<and> payload (inverse_change c) = Snapshot r) \<and>
     (\<forall>c d prior. type c = UPDATED \<longrightarrow> payload c = Delta d prior \<longrightarrow>
        type (inverse_change c) = UPDATED \<and> payload (inverse_change c) = Delta prior d) \<and>
     (\<forall>c p prior. type c = MOVED \<longrightarrow> payload c = Placement p prior \<longrightarrow>
        type (inverse_change c) = MOVED \<and> payload (inverse_change c) = Placement prior p) \<and>
     (\<forall>c. type c = COPIED \<longrightarrow> type (inverse_change c) = DELETED)"
proof -
  from revert_each_emits [of "rev (revert_selection sess s)" s] obtain emitted where
    "change_log (revert sess s) = change_log s @ emitted"
    "map operation_of emitted =
       map (operation_of \<circ> inverse_change) (rev (revert_selection sess s))"
    "store (revert sess s) = fold apply_change emitted (store s)"
    unfolding revert_def by blast
  with sorted_selection [OF assms, of sess] show ?thesis
    by (intro exI [of _ emitted]) (simp add: inverse_change_def)
qed

text \<open>
  C4. A revert selects only records at or after the watermark whose source is not ignored;
  the records it emits carry the REVERT source, which is ignored; so after a revert every
  later revert computation, of any session, selects what it would have selected before,
  none of the emitted records among them, and the drain does not pick them up either.
\<close>

theorem ignored_sources_are_not_reverted_again:
  "(\<forall>c \<in> set (revert_selection sess s).
      c \<in> set (change_log s) \<and> watermark sess \<le> sequence c \<and>
      source c \<noteq> IGNORED_SOURCE \<and> source c \<noteq> REVERT_SOURCE) \<and>
   (\<exists>emitted.
      change_log (revert sess s) = change_log s @ emitted \<and>
      (\<forall>c \<in> set emitted. source c = REVERT_SOURCE) \<and>
      (\<forall>sess'. revert_selection sess' (revert sess s) = revert_selection sess' s) \<and>
      drain_candidates (change_log (revert sess s)) = drain_candidates (change_log s)) \<and>
   (\<forall>l. \<forall>c \<in> set (drain_candidates l).
      source c \<noteq> IGNORED_SOURCE \<and> source c \<noteq> REVERT_SOURCE) \<and>
   REVERT_SOURCE = ''REVERT/IGNORED_SOURCE''"
proof (intro conjI)
  show "\<forall>l. \<forall>c \<in> set (drain_candidates l).
      source c \<noteq> IGNORED_SOURCE \<and> source c \<noteq> REVERT_SOURCE"
    by (auto simp: drain_candidates_def ignored_def)
  show "REVERT_SOURCE = ''REVERT/IGNORED_SOURCE''"
    by (simp add: REVERT_SOURCE_def IGNORED_SOURCE_def)
  show "\<forall>c \<in> set (revert_selection sess s).
      c \<in> set (change_log s) \<and> watermark sess \<le> sequence c \<and>
      source c \<noteq> IGNORED_SOURCE \<and> source c \<noteq> REVERT_SOURCE"
    by (auto simp: revert_selection_def entriesSince_def ignored_def)
  from revert_each_emits [of "rev (revert_selection sess s)" s] obtain emitted where
    e: "change_log (revert sess s) = change_log s @ emitted"
      "\<forall>a \<in> set emitted. source a = REVERT_SOURCE \<and> syncState a = PENDING"
    unfolding revert_def by blast
  then have ign: "\<forall>a \<in> set emitted. ignored (source a)"
    by (simp add: ignored_def)
  have sel: "revert_selection sess' (revert sess s) = revert_selection sess' s" for sess'
    unfolding revert_selection_def e(1) by (rule revert_selection_append_ignored [OF ign])
  have dr: "drain_candidates (change_log (revert sess s)) = drain_candidates (change_log s)"
    unfolding drain_candidates_def e(1) using ign by (induction emitted) auto
  from e sel dr show "\<exists>emitted.
      change_log (revert sess s) = change_log s @ emitted \<and>
      (\<forall>c \<in> set emitted. source c = REVERT_SOURCE) \<and>
      (\<forall>sess'. revert_selection sess' (revert sess s) = revert_selection sess' s) \<and>
      drain_candidates (change_log (revert sess s)) = drain_candidates (change_log s)"
    by (intro exI [of _ emitted]) simp
qed

lemma scenario_sequences:
  "map sequence (change_log after_copy) = [0, 1, 2] \<and> watermark second_session = 1 \<and>
   map sequence (revert_selection second_session after_copy) = [1, 2]"
  by code_simp

lemma scenario_log:
  "map (\<lambda>c. (key c, type c, source c, sequence c)) (change_log after_revert) =
     [(''n1'', CREATED, ''client'', 0), (''n1'', MOVED, ''client'', 1),
      (''n2'', COPIED, ''client'', 2), (''n2'', DELETED, ''REVERT/IGNORED_SOURCE'', 3),
      (''n1'', MOVED, ''REVERT/IGNORED_SOURCE'', 4)]"
  by code_simp

lemma scenario_store:
  "map_option (\<lambda>r. r ''parent'') (store after_remove (''contentnode'', ''n1'')) = Some (Some (JStr ''trash'')) \<and>
   map_option (\<lambda>r. r ''parent'') (store after_revert (''contentnode'', ''n1'')) = Some (Some (JStr ''root'')) \<and>
   store after_revert (''contentnode'', ''n2'') = None"
  by code_simp


lemma scenario_sorted: "sorted_wrt (<) (map sequence (change_log after_copy))"
  using scenario_sequences by simp

theorem revert_emits_inverses_in_reverse_order_witness:
  "sorted_wrt (<) (map sequence (change_log after_copy)) \<and>
   (\<exists>emitted.
      change_log (revert second_session after_copy) = change_log after_copy @ emitted \<and>
      map operation_of emitted =
        map (operation_of \<circ> inverse_change) (rev (revert_selection second_session after_copy)) \<and>
      sorted_wrt (>) (map sequence (rev (revert_selection second_session after_copy))) \<and>
      store (revert second_session after_copy) = fold apply_change emitted (store after_copy)) \<and>
   map (\<lambda>c. (key c, type c, sequence c)) (revert_selection second_session after_copy) =
     [(''n1'', MOVED, 1), (''n2'', COPIED, 2)] \<and>
   map (\<lambda>c. (key c, type c, source c, sequence c)) (change_log after_revert) =
     [(''n1'', CREATED, ''client'', 0), (''n1'', MOVED, ''client'', 1),
      (''n2'', COPIED, ''client'', 2), (''n2'', DELETED, ''REVERT/IGNORED_SOURCE'', 3),
      (''n1'', MOVED, ''REVERT/IGNORED_SOURCE'', 4)]"
proof -
  from revert_emits_inverses_in_reverse_order [OF scenario_sorted, of second_session]
  obtain emitted where
    "change_log (revert second_session after_copy) = change_log after_copy @ emitted"
    "map operation_of emitted =
        map (operation_of \<circ> inverse_change) (rev (revert_selection second_session after_copy))"
    "sorted_wrt (>) (map sequence (rev (revert_selection second_session after_copy)))"
    "store (revert second_session after_copy) = fold apply_change emitted (store after_copy)"
    by blast
  then have "\<exists>emitted.
      change_log (revert second_session after_copy) = change_log after_copy @ emitted \<and>
      map operation_of emitted =
        map (operation_of \<circ> inverse_change) (rev (revert_selection second_session after_copy)) \<and>
      sorted_wrt (>) (map sequence (rev (revert_selection second_session after_copy))) \<and>
      store (revert second_session after_copy) = fold apply_change emitted (store after_copy)"
    by blast
  moreover have "map (\<lambda>c. (key c, type c, sequence c)) (revert_selection second_session after_copy) =
     [(''n1'', MOVED, 1), (''n2'', COPIED, 2)]"
    by code_simp
  ultimately show ?thesis
    using scenario_sorted scenario_log by (intro conjI)
qed

theorem ignored_sources_are_not_reverted_again_witness:
  "list_all (\<lambda>c. c \<in> set (change_log after_copy) \<and> watermark second_session \<le> sequence c \<and>
              source c \<noteq> IGNORED_SOURCE \<and> source c \<noteq> REVERT_SOURCE)
     (revert_selection second_session after_copy) \<and>
   revert_selection second_session (revert second_session after_copy) =
     revert_selection second_session after_copy \<and>
   drain_candidates (change_log (revert second_session after_copy)) =
     drain_candidates (change_log after_copy) \<and>
   map sequence (revert_selection second_session after_copy) = [1, 2] \<and>
   map sequence (change_log (revert second_session after_copy)) = [0, 1, 2, 3, 4]"
proof -
  note T = ignored_sources_are_not_reverted_again [of second_session after_copy]
  from T have 1: "list_all (\<lambda>c. c \<in> set (change_log after_copy) \<and>
              watermark second_session \<le> sequence c \<and>
              source c \<noteq> IGNORED_SOURCE \<and> source c \<noteq> REVERT_SOURCE)
     (revert_selection second_session after_copy)"
    unfolding list_all_iff by (rule conjunct1)
  from T have 2: "revert_selection second_session (revert second_session after_copy) =
     revert_selection second_session after_copy"
    by blast
  from T have 3: "drain_candidates (change_log (revert second_session after_copy)) =
     drain_candidates (change_log after_copy)"
    by blast
  have 4: "map sequence (revert_selection second_session after_copy) = [1, 2]"
    using scenario_sequences by simp
  have 5: "map sequence (change_log (revert second_session after_copy)) = [0, 1, 2, 3, 4]"
    using arg_cong [OF scenario_log, of "map (\<lambda>x. snd (snd (snd x)))"]
    by (simp add: after_revert_def comp_def)
  from 1 2 3 4 5 show ?thesis
    by (intro conjI)
qed

text \<open>Tracked mutations and their inverses.\<close>

lemma apply_change_sequence [simp]: "apply_change (c\<lparr>sequence := n\<rparr>) = apply_change c"
  by (rule ext) (simp add: apply_change_def)

lemma apply_delta_prior:
  "apply_delta (\<lambda>f. case d f of None \<Rightarrow> None | Some _ \<Rightarrow> Some (r f)) (apply_delta d r) = r"
  by (rule ext) (simp add: apply_delta_def split: option.splits)

lemma place_prior: "place (r ''parent'', r ''position'') (place p r) = r"
  by (rule ext) (simp add: place_def)

lemma inverse_undoes_change:
  assumes "change_for src m st = Some c"
  shows "apply_change (inverse_change c) (apply_change c st) = st"
proof (cases m)
  case (Create t k r)
  with assms have c: "c = new_change src t k CREATED (Snapshot r)" and n: "st (t, k) = None"
    by (auto split: option.splits)
  from n have "st((t, k) := None) = st"
    by (auto simp: fun_upd_idem_iff)
  then show ?thesis
    by (simp add: c new_change_def apply_change_def inverse_change_def)
next
  case (Update t k d)
  with assms obtain r where r: "st (t, k) = Some r"
    and c: "c = new_change src t k UPDATED
        (Delta d (\<lambda>f. case d f of None \<Rightarrow> None | Some _ \<Rightarrow> Some (r f)))"
    by (auto split: option.splits)
  from r have "st((t, k) \<mapsto> r) = st"
    by (auto simp: fun_upd_idem_iff)
  then show ?thesis
    by (simp add: c r new_change_def apply_change_def inverse_change_def apply_delta_prior)
next
  case (Delete t k)
  with assms obtain r where r: "st (t, k) = Some r"
    and c: "c = new_change src t k DELETED (Snapshot r)"
    by (auto split: option.splits)
  from r have "st((t, k) \<mapsto> r) = st"
    by (auto simp: fun_upd_idem_iff)
  then show ?thesis
    by (simp add: c r new_change_def apply_change_def inverse_change_def)
next
  case (Move t k target pos)
  with assms obtain r where r: "st (t, k) = Some r"
    and c: "c = new_change src t k MOVED
        (Placement (placement target pos) (r ''parent'', r ''position''))"
    by (auto split: option.splits)
  from r have "st((t, k) \<mapsto> r) = st"
    by (auto simp: fun_upd_idem_iff)
  then show ?thesis
    by (simp add: c r new_change_def apply_change_def inverse_change_def place_prior)
next
  case (Copy t original k target pos)
  with assms obtain r where n: "st (t, k) = None"
    and c: "c = new_change src t k COPIED (Snapshot (place (placement target pos) r))"
    by (auto split: option.splits)
  from n have "st((t, k) := None) = st"
    by (auto simp: fun_upd_idem_iff)
  then show ?thesis
    by (simp add: c new_change_def apply_change_def inverse_change_def)
qed


lemma inverse_change_sequence:
  "inverse_change (c\<lparr>sequence := n\<rparr>) = (inverse_change c)\<lparr>sequence := n\<rparr>"
  by (simp add: inverse_change_def)

lemma source_change_for: "change_for src m st = Some c \<Longrightarrow> source c = src"
  by (cases m) (auto simp: new_change_def split: option.splits)

lemma current_max_sequence_append:
  "current_max_sequence (l @ [c]) = max (sequence c) (current_max_sequence l)"
  by (simp add: current_max_sequence_def)

lemma current_max_le_next: "current_max_sequence l \<le> next_sequence l"
  by (simp add: next_sequence_def current_max_sequence_def)

lemma apply_change_operation:
  "operation_of a = operation_of b \<Longrightarrow> apply_change a = apply_change b"
  by (rule ext) (simp add: operation_of_def apply_change_def)

lemma fold_apply_change_operations:
  "map operation_of as = map operation_of bs \<Longrightarrow>
     fold apply_change as st = fold apply_change bs st"
proof (induction as arbitrary: bs st)
  case Nil
  then show ?case by simp
next
  case (Cons a as)
  then obtain b bs' where bs: "bs = b # bs'" and "operation_of a = operation_of b"
    and "map operation_of as = map operation_of bs'"
    by (cases bs) auto
  with Cons.IH [of bs' "apply_change b st"] show ?case
    by (simp add: apply_change_operation [of a b])
qed

lemma store_revert:
  "store (revert sess s) =
     fold apply_change (map inverse_change (rev (revert_selection sess s))) (store s)"
proof -
  from revert_each_emits [of "rev (revert_selection sess s)" s] obtain emitted where
    "map operation_of emitted =
       map (operation_of \<circ> inverse_change) (rev (revert_selection sess s))"
    "store (revert sess s) = fold apply_change emitted (store s)"
    unfolding revert_def by blast
  then show ?thesis
    using fold_apply_change_operations
      [of emitted "map inverse_change (rev (revert_selection sess s))" "store s"]
    by simp
qed

text \<open>
  What a session leaves behind: its records, after those that were there, each with the
  session's source and a sequence at or above the maximum there was; and undoing them from
  the last to the first gives the store back.
\<close>

lemma run_session_records:
  "\<exists>cs. change_log (run_session src ms s) = change_log s @ cs \<and>
     (\<forall>c \<in> set cs. source c = src \<and> current_max_sequence (change_log s) \<le> sequence c) \<and>
     fold apply_change (map inverse_change (rev cs)) (store (run_session src ms s)) = store s"
proof (induction ms arbitrary: s)
  case Nil
  then show ?case by simp
next
  case (Cons m ms)
  show ?case
  proof (cases "change_for src m (store s)")
    case None
    with Cons.IH [of s] show ?thesis
      by (simp add: tracked_mutation_def)
  next
    case (Some c)
    let ?c' = "c\<lparr>sequence := next_sequence (change_log s)\<rparr>"
    let ?s1 = "append_change c s"
    from Some have run: "run_session src (m # ms) s = run_session src ms ?s1"
      by (simp add: tracked_mutation_def)
    from Cons.IH [of ?s1] obtain cs where
      cs: "change_log (run_session src ms ?s1) = change_log ?s1 @ cs"
        "\<forall>c \<in> set cs. source c = src \<and> current_max_sequence (change_log ?s1) \<le> sequence c"
        "fold apply_change (map inverse_change (rev cs)) (store (run_session src ms ?s1)) =
           store ?s1"
      by blast
    have mono: "current_max_sequence (change_log s) \<le> current_max_sequence (change_log ?s1)"
      by (simp add: change_log_append_change current_max_sequence_append)
    have "fold apply_change (map inverse_change (rev (?c' # cs)))
        (store (run_session src ms ?s1)) = apply_change (inverse_change ?c') (store ?s1)"
      using cs(3) by simp
    also have "\<dots> = apply_change (inverse_change c) (apply_change c (store s))"
      by (simp add: inverse_change_sequence store_append_change)
    also have "\<dots> = store s"
      by (rule inverse_undoes_change [OF Some])
    finally have undo: "fold apply_change (map inverse_change (rev (?c' # cs)))
        (store (run_session src ms ?s1)) = store s" .
    show ?thesis
    proof (intro exI [of _ "?c' # cs"] conjI)
      show "change_log (run_session src (m # ms) s) = change_log s @ ?c' # cs"
        unfolding run using cs(1) by (simp add: change_log_append_change)
      show "\<forall>c \<in> set (?c' # cs).
          source c = src \<and> current_max_sequence (change_log s) \<le> sequence c"
        using cs(2) mono source_change_for [OF Some] current_max_le_next [of "change_log s"]
        by auto
      show "fold apply_change (map inverse_change (rev (?c' # cs)))
          (store (run_session src (m # ms) s)) = store s"
        unfolding run using undo by simp
    qed
  qed
qed

text \<open>
  When a session begins on a log that holds no record with a source that is not ignored at
  or after the session's watermark (an empty log, say), a single revert after any tracked
  mutations gives back the store the session began with.
\<close>

lemma revert_restores_store_on_fresh_watermark:
  assumes "\<not> ignored src" and "revert_selection (begin_session s0) s0 = []"
  shows "store (revert (begin_session s0) (run_session src ms s0)) = store s0"
proof -
  from run_session_records [of src ms s0] obtain cs where
    cs: "change_log (run_session src ms s0) = change_log s0 @ cs"
      "\<forall>c \<in> set cs. source c = src \<and> current_max_sequence (change_log s0) \<le> sequence c"
      "fold apply_change (map inverse_change (rev cs)) (store (run_session src ms s0)) = store s0"
    by blast
  from cs(2) assms(1) have "filter (\<lambda>c. \<not> ignored (source c))
      (entriesSince (watermark (begin_session s0)) cs) = cs"
    by (auto simp: entriesSince_def begin_session_def filter_id_conv)
  with assms(2) have "revert_selection (begin_session s0) (run_session src ms s0) = cs"
    by (simp add: revert_selection_def cs(1) entriesSince_def)
  with cs(3) show ?thesis
    by (simp add: store_revert)
qed

lemma fresh_watermark_on_empty_log:
  "change_log s0 = [] \<Longrightarrow> revert_selection (begin_session s0) s0 = []"
  by (simp add: revert_selection_def entriesSince_def)

text \<open>
  The spec's own scenario, on a log that is empty when the session begins: create topic
  \<open>T1\<close>, create resource \<open>R1\<close> under it, revert. The store holds neither, the log holds
  the two forward and the two inverse records, and none was ever synced.
\<close>

lemma fresh_log_scenario:
  "watermark (begin_session empty_state) = 0 \<and>
   store after_fresh_revert (''contentnode'', ''T1'') = None \<and>
   store after_fresh_revert (''contentnode'', ''R1'') = None \<and>
   map (\<lambda>c. (key c, type c, source c, sequence c, syncState c)) (change_log after_fresh_revert) =
     [(''T1'', CREATED, ''client'', 0, PENDING), (''R1'', CREATED, ''client'', 1, PENDING),
      (''R1'', DELETED, ''REVERT/IGNORED_SOURCE'', 2, PENDING),
      (''T1'', DELETED, ''REVERT/IGNORED_SOURCE'', 3, PENDING)]"
  by code_simp

end
